theory Spec2Isabelle
  imports Main "HOL-Library.Word"
begin

text \<open>
  A model of the bridge service \<open>server.py\<close>: the URL validator, the argument vector of the
  device command, the output relay, the command runner and the connection session. Pure
  functions of the source are functions here. The session and the runner, which run as
  coroutines and tasks of one event loop, are a state machine: a state, and the events that
  the scheduler and the environment choose (a message arrives, the loop takes a message, the
  process creation answers, a relay makes one pass of its loop, the process exits, an
  \<open>await\<close> is passed). A property of every schedule is a property of every list of events.
\<close>

section \<open>Python values\<close>

text \<open>
  A Python \<open>str\<close> is a sequence of Unicode code points and is modelled as a list of
  natural numbers; \<open>bytes\<close> is a list of 8-bit words. String literals of the source are
  written \<open>ustr ''...''\<close>.
\<close>

type_synonym str = "nat list"

type_synonym bytes = "8 word list"

definition ustr :: "string \<Rightarrow> str" where
  "ustr s = map of_char s"

datatype exn = ValueError | AttributeError | JSONDecodeError | RecursionError

text \<open>
  The value \<open>json.loads\<close> returns: \<open>None\<close>, a bool, an int, a float (its IEEE-754
  binary64 image), a str, a list or a dict (its items, keys distinct).
\<close>

datatype json =
    JNull
  | JBool bool
  | JInt int
  | JFloat "64 word"
  | JStr str
  | JList "json list"
  | JDict "(str \<times> json) list"

datatype ip_version = IPv4Address | IPv6Address

text \<open>
  The parts of the Python library that the program reaches but that are tables or parsers
  of their own are parameters of the model:
  \<^item> \<open>str_lower_ext\<close>: \<open>str.lower()\<close> on a string that is not pure ASCII;
  \<^item> \<open>normalize_NFKC\<close>: \<open>unicodedata.normalize('NFKC', _)\<close>;
  \<^item> \<open>ip_address\<close>: \<open>ipaddress.ip_address\<close>, \<open>None\<close> when it raises \<open>ValueError\<close>;
  \<^item> \<open>json_loads\<close>: \<open>json.loads\<close> on a text frame, \<open>Inl\<close> the exception it raises;
  \<^item> \<open>py_repr\<close>: \<open>repr\<close> of a decoded JSON value.
\<close>

record pylib =
  str_lower_ext :: "str \<Rightarrow> str"
  normalize_NFKC :: "str \<Rightarrow> str"
  ip_address :: "str \<Rightarrow> ip_version option"
  json_loads :: "str \<Rightarrow> exn + json"
  py_repr :: "json \<Rightarrow> str"

subsection \<open>String operations\<close>

definition isascii :: "str \<Rightarrow> bool" where
  "isascii s = (\<forall>c \<in> set s. c < 128)"

definition ascii_isalpha :: "nat \<Rightarrow> bool" where
  "ascii_isalpha c = ((65 \<le> c \<and> c \<le> 90) \<or> (97 \<le> c \<and> c \<le> 122))"

definition ascii_isdigit :: "nat \<Rightarrow> bool" where
  "ascii_isdigit c = (48 \<le> c \<and> c \<le> 57)"

definition ascii_lower :: "nat \<Rightarrow> nat" where
  "ascii_lower c = (if 65 \<le> c \<and> c \<le> 90 then c + 32 else c)"

text \<open>\<open>s.lower()\<close>: on an ASCII string exactly the letters A-Z change.\<close>

definition lower :: "pylib \<Rightarrow> str \<Rightarrow> str" where
  "lower lib s = (if isascii s then map ascii_lower s else str_lower_ext lib s)"

text \<open>\<open>s.find(c)\<close> for a one-character \<open>c\<close>; \<open>None\<close> stands for \<open>-1\<close>.\<close>

fun str_find :: "nat \<Rightarrow> str \<Rightarrow> nat option" where
  "str_find c [] = None"
| "str_find c (x # xs) = (if x = c then Some 0 else map_option Suc (str_find c xs))"

text \<open>\<open>s.find(c, start)\<close> and \<open>s.rfind(c)\<close>.\<close>

definition str_find_from :: "nat \<Rightarrow> nat \<Rightarrow> str \<Rightarrow> nat option" where
  "str_find_from c start s = map_option (\<lambda>i. start + i) (str_find c (drop start s))"

definition str_rfind :: "nat \<Rightarrow> str \<Rightarrow> nat option" where
  "str_rfind c s = map_option (\<lambda>i. length s - 1 - i) (str_find c (rev s))"

text \<open>\<open>s.partition(c)\<close>: the part before the first \<open>c\<close>, whether \<open>c\<close> was found, the part after.\<close>

definition partition_at :: "nat \<Rightarrow> str \<Rightarrow> str \<times> bool \<times> str" where
  "partition_at c s =
     (case str_find c s of
        None \<Rightarrow> (s, False, [])
      | Some i \<Rightarrow> (take i s, True, drop (i + 1) s))"

definition startswith :: "str \<Rightarrow> str \<Rightarrow> bool" where
  "startswith s p = (take (length p) s = p)"

section \<open>urllib.parse\<close>

text \<open>
  \<open>urlparse\<close> is the standard library's (CPython 3.11, \<open>urllib/parse.py\<close>), called with a
  \<open>str\<close> and the default arguments \<open>scheme=''\<close>, \<open>allow_fragments=True\<close>. It raises
  \<open>ValueError\<close> on a malformed bracketed host and on a network location that NFKC
  normalisation turns into one with a delimiter.
\<close>

record ParseResult =
  scheme :: str
  netloc :: str
  path :: str
  params :: str
  query :: str
  fragment :: str

definition scheme_chars :: "nat \<Rightarrow> bool" where
  "scheme_chars c = (ascii_isalpha c \<or> ascii_isdigit c \<or> c \<in> of_char ` set ''+-.'')"

definition uses_params :: "str list" where
  "uses_params = map ustr ['''', ''ftp'', ''hdl'', ''prospero'', ''http'', ''imap'',
     ''https'', ''shttp'', ''rtsp'', ''rtsps'', ''rtspu'', ''sip'', ''sips'', ''mms'',
     ''sftp'', ''tel'']"

text \<open>\<open>_splitnetloc(url, start)\<close>: the earliest of \<open>/\<close>, \<open>?\<close>, \<open>#\<close> from \<open>start\<close> on ends the
  network location.\<close>

definition splitnetloc :: "str \<Rightarrow> nat \<Rightarrow> str \<times> str" where
  "splitnetloc url start =
     (let delim = fold (\<lambda>c d. case str_find_from c start url of
                                 None \<Rightarrow> d
                               | Some wdelim \<Rightarrow> min d wdelim)
                       (ustr ''/?#'') (length url)
      in (drop start (take delim url), drop delim url))"

text \<open>\<open>_check_bracketed_host\<close>: an IPvFuture address must match
  \<^verbatim>\<open>\Av[a-fA-F0-9]+\..+\Z\<close>; anything else must be an IPv6 address.\<close>

definition ascii_isxdigit :: "nat \<Rightarrow> bool" where
  "ascii_isxdigit c = (ascii_isdigit c \<or> (65 \<le> c \<and> c \<le> 70) \<or> (97 \<le> c \<and> c \<le> 102))"

definition check_bracketed_host :: "pylib \<Rightarrow> str \<Rightarrow> exn + unit" where
  "check_bracketed_host lib hostname =
     (if startswith hostname (ustr ''v'') then
        (let rest = drop 1 hostname;
             hex = takeWhile ascii_isxdigit rest;
             after = dropWhile ascii_isxdigit rest
         in if hex \<noteq> [] \<and> startswith after (ustr ''.'') \<and> drop 1 after \<noteq> [] \<and> 10 \<notin> set (drop 1 after)
            then Inr () else Inl ValueError)
      else
        (case ip_address lib hostname of
           None \<Rightarrow> Inl ValueError
         | Some IPv4Address \<Rightarrow> Inl ValueError
         | Some IPv6Address \<Rightarrow> Inr ()))"

definition checknetloc :: "pylib \<Rightarrow> str \<Rightarrow> exn + unit" where
  "checknetloc lib nl =
     (if nl = [] \<or> isascii nl then Inr ()
      else
        (let n = filter (\<lambda>c. c \<notin> of_char ` set ''@:#?'') nl;
             netloc2 = normalize_NFKC lib n
         in if n = netloc2 then Inr ()
            else if \<exists>c \<in> of_char ` set ''/?#@:''. c \<in> set netloc2 then Inl ValueError
            else Inr ()))"

text \<open>\<open>urlsplit\<close> returns (scheme, netloc, path, query, fragment).\<close>

definition urlsplit :: "pylib \<Rightarrow> str \<Rightarrow> exn + (str \<times> str \<times> str \<times> str \<times> str)" where
  "urlsplit lib url0 =
     (let url1 = dropWhile (\<lambda>c. c \<le> 32) url0;
          url2 = filter (\<lambda>c. c \<notin> {9, 13, 10}) url1;
          (sch, url3) =
            (case str_find (of_char CHR '':'') url2 of
               None \<Rightarrow> ([], url2)
             | Some i \<Rightarrow>
                 if 0 < i \<and> ascii_isalpha (hd url2) \<and> (\<forall>c \<in> set (take i url2). scheme_chars c)
                 then (map ascii_lower (take i url2), drop (i + 1) url2)
                 else ([], url2));
          split_nl =
            (if take 2 url3 = ustr ''//'' then
               (let (nl, rest) = splitnetloc url3 2;
                    lb = of_char CHR ''['' \<in> set nl;
                    rb = of_char CHR '']'' \<in> set nl
                in if (lb \<and> \<not> rb) \<or> (rb \<and> \<not> lb) then Inl ValueError
                   else if lb \<and> rb then
                     (case check_bracketed_host lib
                             (fst (partition_at (of_char CHR '']'')
                                (snd (snd (partition_at (of_char CHR ''['') nl))))) of
                        Inl e \<Rightarrow> Inl e
                      | Inr _ \<Rightarrow> Inr (nl, rest))
                   else Inr (nl, rest))
             else Inr ([], url3))
      in case split_nl of
           Inl e \<Rightarrow> Inl e
         | Inr (nl, url4) \<Rightarrow>
             (let (url5, frag) =
                    (case partition_at (of_char CHR ''#'') url4 of (a, _, b) \<Rightarrow> (a, b));
                  (url6, qry) =
                    (case partition_at (of_char CHR ''?'') url5 of (a, _, b) \<Rightarrow> (a, b))
              in case checknetloc lib nl of
                   Inl e \<Rightarrow> Inl e
                 | Inr _ \<Rightarrow> Inr (sch, nl, url6, qry, frag)))"

text \<open>\<open>_splitparams\<close>: the parameters of the last path segment.\<close>

definition splitparams :: "str \<Rightarrow> str \<times> str" where
  "splitparams url =
     (case (case str_rfind (of_char CHR ''/'') url of
              Some slash \<Rightarrow> str_find_from (of_char CHR '';'') slash url
            | None \<Rightarrow> str_find (of_char CHR '';'') url) of
        None \<Rightarrow> (url, [])
      | Some i \<Rightarrow> (take i url, drop (i + 1) url))"

definition urlparse :: "pylib \<Rightarrow> str \<Rightarrow> exn + ParseResult" where
  "urlparse lib url =
     (case urlsplit lib url of
        Inl e \<Rightarrow> Inl e
      | Inr (sch, nl, url', qry, frag) \<Rightarrow>
          (let (url'', prm) =
                 (if sch \<in> set uses_params \<and> of_char CHR '';'' \<in> set url'
                  then splitparams url' else (url', []))
           in Inr \<lparr>scheme = sch, netloc = nl, path = url'', params = prm,
                   query = qry, fragment = frag\<rparr>))"

text \<open>
  The \<open>hostname\<close> property of a parse result: the network location without user
  information and port, lowercased up to an IPv6 zone; \<open>None\<close> when it is empty.
\<close>

definition hostinfo :: "str \<Rightarrow> str \<times> str option" where
  "hostinfo nl =
     (let at = of_char CHR ''@'';
          hinfo = (if at \<in> set nl then rev (fst (partition_at at (rev nl))) else nl);
          (_, have_open_br, bracketed) = partition_at (of_char CHR ''['') hinfo;
          (host, port) =
            (if have_open_br then
               (let (h, _, p) = partition_at (of_char CHR '']'') bracketed;
                    (_, _, p') = partition_at (of_char CHR '':'') p
                in (h, p'))
             else
               (let (h, _, p) = partition_at (of_char CHR '':'') hinfo in (h, p)))
      in (host, if port = [] then None else Some port))"

definition hostname :: "pylib \<Rightarrow> ParseResult \<Rightarrow> str option" where
  "hostname lib u =
     (let h = fst (hostinfo (netloc u))
      in if h = [] then None
         else (let (h', percent, zone) = partition_at (of_char CHR ''%'') h
               in Some (lower lib h' @ (if percent then ustr ''%'' else []) @ zone)))"

section \<open>The URL validator\<close>

definition allowed_hosts :: "str set" where
  "allowed_hosts = ustr ` {''www.youtube.com'', ''youtube.com'', ''m.youtube.com'',
     ''youtu.be'', ''www.youtu.be''}"

definition is_valid_youtube_url :: "pylib \<Rightarrow> str \<Rightarrow> bool" where
  "is_valid_youtube_url lib url =
     (case urlparse lib url of
        Inl e \<Rightarrow> False
      | Inr u \<Rightarrow>
          if scheme u \<notin> ustr ` {''http'', ''https''} then False
          else
            (let host = lower lib (if netloc u \<noteq> [] then netloc u else [])
             in if host \<notin> allowed_hosts then False
                else if host \<in> ustr ` {''youtu.be'', ''www.youtu.be''}
                  then path u \<noteq> [] \<and> path u \<noteq> ustr ''/''
                else if host \<in> ustr ` {''youtube.com'', ''www.youtube.com'', ''m.youtube.com''}
                  then \<exists>p \<in> ustr ` {''/watch'', ''/shorts'', ''/live'', ''/embed''}.
                         startswith (path u) p
                else False))"

section \<open>shlex and json.dumps\<close>

text \<open>\<open>shlex.quote\<close>: a string of characters outside \<^verbatim>\<open>[^\w@%+=:,./-]\<close> (ASCII) is returned as it
  is, the empty string as two single quotes, any other string between single quotes with
  each single quote replaced by \<^verbatim>\<open>'"'"'\<close>.\<close>

definition shlex_safe :: "nat \<Rightarrow> bool" where
  "shlex_safe c = (ascii_isalpha c \<or> ascii_isdigit c \<or> c \<in> of_char ` set ''_@%+=:,./-'')"

definition shlex_quote :: "str \<Rightarrow> str" where
  "shlex_quote s =
     (if s = [] then [39, 39]
      else if \<forall>c \<in> set s. shlex_safe c then s
      else [39] @ concat (map (\<lambda>c. if c = 39 then [39, 34, 39, 34, 39] else [c]) s) @ [39])"

text \<open>\<open>sep.join(parts)\<close>.\<close>

fun str_join :: "str \<Rightarrow> str list \<Rightarrow> str" where
  "str_join sep [] = []"
| "str_join sep [x] = x"
| "str_join sep (x # y # ys) = x @ sep @ str_join sep (y # ys)"

definition shlex_join :: "str list \<Rightarrow> str" where
  "shlex_join split_command = str_join (ustr '' '') (map shlex_quote split_command)"

text \<open>\<open>json.dumps\<close> of a tuple of strings, with the default \<open>ensure_ascii=True\<close>: every
  character outside the printable ASCII range, the double quote and the backslash are
  escaped.\<close>

definition hex_digit :: "nat \<Rightarrow> nat" where
  "hex_digit d = (if d < 10 then 48 + d else 87 + d)"

definition hex4 :: "nat \<Rightarrow> str" where
  "hex4 n = map hex_digit [(n div 4096) mod 16, (n div 256) mod 16, (n div 16) mod 16, n mod 16]"

definition json_escape :: "nat \<Rightarrow> str" where
  "json_escape c =
     (if c = 92 then [92, 92]
      else if c = 34 then [92, 34]
      else if c = 8 then [92, 98]
      else if c = 12 then [92, 102]
      else if c = 10 then [92, 110]
      else if c = 13 then [92, 114]
      else if c = 9 then [92, 116]
      else if 32 \<le> c \<and> c \<le> 126 then [c]
      else if c < 65536 then [92, 117] @ hex4 c
      else [92, 117] @ hex4 (55296 + ((c - 65536) div 1024) mod 1024) @
           [92, 117] @ hex4 (56320 + (c - 65536) mod 1024))"

definition json_dumps_str :: "str \<Rightarrow> str" where
  "json_dumps_str s = [34] @ concat (map json_escape s) @ [34]"

definition json_dumps_strs :: "str list \<Rightarrow> str" where
  "json_dumps_strs xs = ustr ''['' @ str_join (ustr '', '') (map json_dumps_str xs) @ ustr '']''"

section \<open>Notifications\<close>

datatype notification_kind = Log | Error | Done | Pong

record notification =
  kind :: notification_kind
  message :: str
  returncode :: "int option"

text \<open>\<open>send(ws, typ, message, **extra)\<close> puts one notification on the connection; the
  connection is the list of the notifications sent so far. Sending succeeds: the transport
  is taken to be reliable and ordered, and a cancellation of the handler from outside is not
  part of the model. Nor is a message that the transport cannot encode: \<open>ws.send_str\<close> raises
  \<open>UnicodeEncodeError\<close> on a message that holds a lone surrogate (a code point from 55296 to
  57343), so the statements below speak of messages without one.\<close>

definition send :: "notification list \<Rightarrow> notification_kind \<Rightarrow> str \<Rightarrow> int option \<Rightarrow> notification list" where
  "send ws t m extra = ws @ [\<lparr>kind = t, message = m, returncode = extra\<rparr>]"

section \<open>The output relay\<close>

text \<open>
  \<open>line.decode(errors="replace")\<close>: UTF-8 decoding in which every maximal ill-formed
  byte sequence becomes U+FFFD.
\<close>

definition is_cont :: "8 word \<Rightarrow> bool" where
  "is_cont b = (128 \<le> unat b \<and> unat b < 192)"

definition second_ok :: "nat \<Rightarrow> 8 word \<Rightarrow> bool" where
  "second_ok ch b2 =
     (is_cont b2 \<and>
      \<not> (ch = 224 \<and> unat b2 < 160) \<and> \<not> (ch = 237 \<and> 160 \<le> unat b2) \<and>
      \<not> (ch = 240 \<and> unat b2 < 144) \<and> \<not> (ch = 244 \<and> 144 \<le> unat b2))"

definition cbits :: "8 word \<Rightarrow> nat" where
  "cbits b = unat b mod 64"

fun decode_replace :: "bytes \<Rightarrow> str" where
  "decode_replace [] = []"
| "decode_replace (b # bs) =
     (let ch = unat b in
      if ch < 128 then ch # decode_replace bs
      else if ch < 194 \<or> 245 \<le> ch then 65533 # decode_replace bs
      else
        (case bs of
           [] \<Rightarrow> [65533]
         | b2 # r2 \<Rightarrow>
             if \<not> second_ok ch b2 then 65533 # decode_replace bs
             else if ch < 224 then ((ch mod 32) * 64 + cbits b2) # decode_replace r2
             else
               (case r2 of
                  [] \<Rightarrow> [65533]
                | b3 # r3 \<Rightarrow>
                    if \<not> is_cont b3 then 65533 # decode_replace r2
                    else if ch < 240
                      then ((ch mod 16) * 4096 + cbits b2 * 64 + cbits b3) # decode_replace r3
                    else
                      (case r3 of
                         [] \<Rightarrow> [65533]
                       | b4 # r4 \<Rightarrow>
                           if \<not> is_cont b4 then 65533 # decode_replace r3
                           else ((ch mod 8) * 262144 + cbits b2 * 4096 + cbits b3 * 64 + cbits b4)
                                  # decode_replace r4))))"

text \<open>\<open>text.rstrip("\n")\<close>.\<close>

definition rstrip_newline :: "str \<Rightarrow> str" where
  "rstrip_newline s = rev (dropWhile (\<lambda>c. c = 10) (rev s))"

text \<open>
  A stream is what its successive \<open>readline()\<close> calls return: call number \<open>k\<close> gives a line,
  the empty bytes at end of stream, or raises (the reader's \<open>ValueError\<close> on a line beyond
  its buffer limit).
\<close>

type_synonym stream = "nat \<Rightarrow> exn + bytes"

datatype task = Reading nat | Finished | Failed exn

text \<open>One pass of the relay's loop body, from the \<open>k\<close>-th \<open>readline\<close>.\<close>

definition relay_iter :: "notification list \<Rightarrow> stream \<Rightarrow> nat \<Rightarrow> str \<Rightarrow> notification list \<times> task" where
  "relay_iter ws st k prefix =
     (case st k of
        Inl e \<Rightarrow> (ws, Failed e)
      | Inr line \<Rightarrow>
          if line = [] then (ws, Finished)
          else
            (let text = rstrip_newline (decode_replace line)
             in (send ws Log (ustr ''['' @ prefix @ ustr ''] '' @ text) None, Reading (Suc k))))"

text \<open>The relay: the loop runs until end of stream or an exception; \<open>None\<close> is a loop that
  never ends.\<close>

partial_function (option) stream_process_output ::
  "notification list \<Rightarrow> stream \<Rightarrow> nat \<Rightarrow> str \<Rightarrow> (notification list \<times> (exn + unit)) option" where
  "stream_process_output ws st k prefix =
     (case relay_iter ws st k prefix of
        (ws', Reading k') \<Rightarrow> stream_process_output ws' st k' prefix
      | (ws', Finished) \<Rightarrow> Some (ws', Inr ())
      | (ws', Failed e) \<Rightarrow> Some (ws', Inl e))"

text \<open>A read that gives a line, and the log notifications of the first \<open>n\<close> lines of a
  stream.\<close>

definition is_line :: "exn + bytes \<Rightarrow> bool" where
  "is_line x = (case x of Inl _ \<Rightarrow> False | Inr line \<Rightarrow> line \<noteq> [])"

definition relay_logs :: "str \<Rightarrow> stream \<Rightarrow> nat \<Rightarrow> notification list" where
  "relay_logs prefix st n =
     map (\<lambda>i. \<lparr>kind = Log,
                message = ustr ''['' @ prefix @ ustr ''] '' @
                          rstrip_newline (decode_replace (projr (st i))),
                returncode = None\<rparr>) [0..<n]"

text \<open>
  A read as \<open>readline\<close> gives it before the end of the stream: bytes, not empty, with no
  newline but possibly the last byte. And a line without its trailing newline.
\<close>

definition is_readline :: "exn + bytes \<Rightarrow> bool" where
  "is_readline x =
     (case x of Inl _ \<Rightarrow> False | Inr line \<Rightarrow> line \<noteq> [] \<and> 10 \<notin> set (butlast line))"

definition chomp :: "bytes \<Rightarrow> bytes" where
  "chomp line = (if line \<noteq> [] \<and> last line = 10 then butlast line else line)"

text \<open>
  The pipes of the process are \<open>StreamReader\<close>s with the default limit of \<open>2 ** 16\<close> bytes,
  since \<open>run_adb_intent\<close> passes no \<open>limit\<close> to \<open>create_subprocess_exec\<close>. \<open>readline\<close> returns a
  line with its newline when the newline is found within the limit, returns what is left
  at the end of the stream when that is no longer than the limit, and raises \<open>ValueError\<close>
  otherwise. \<open>readline_stream ls\<close> is the stream of a process that writes the lines \<open>ls\<close>
  (each with its newline, but possibly the last) and closes the pipe. The relay makes no
  read after one that raised.
\<close>

definition readline_limit :: nat where
  "readline_limit = 65536"

definition readline_stream :: "bytes list \<Rightarrow> stream" where
  "readline_stream ls k =
     (if k < length ls
      then (if readline_limit < length (chomp (ls ! k)) then Inl ValueError else Inr (ls ! k))
      else Inr [])"

section \<open>The command runner\<close>

text \<open>\<open>str(n)\<close> for an integer, as the f-string of the exit code renders it.\<close>

fun str_of_nat :: "nat \<Rightarrow> str" where
  "str_of_nat n = (if n < 10 then [48 + n] else str_of_nat (n div 10) @ [48 + n mod 10])"

declare str_of_nat.simps [simp del]

definition str_of_int :: "int \<Rightarrow> str" where
  "str_of_int i = (if i < 0 then 45 # str_of_nat (nat (- i)) else str_of_nat (nat i))"

text \<open>The argument vector \<open>cmd\<close> that \<open>run_adb_intent\<close> builds from the URL.\<close>

definition run_adb_intent_cmd :: "str \<Rightarrow> str list" where
  "run_adb_intent_cmd url =
     [ustr ''adb'',
      ustr ''exec-out'',
      shlex_join [ustr ''am'', ustr ''start'', ustr ''-a'', ustr ''android.intent.action.VIEW'',
                  ustr ''-d'', url, ustr ''-p'', ustr ''com.google.android.youtube.tv'']]"

text \<open>
  \<open>run_adb_intent\<close> up to the call of \<open>create_subprocess_exec\<close>: it logs the command and
  hands \<open>cmd\<close>, the list of arguments itself, to the process creation (no shell is involved).
\<close>

definition run_adb_intent_begin :: "notification list \<Rightarrow> str \<Rightarrow> notification list \<times> str list" where
  "run_adb_intent_begin ws url =
     (let cmd = run_adb_intent_cmd url
      in (send ws Log (ustr ''Command executed: '' @ json_dumps_strs cmd) None, cmd))"

text \<open>
  What \<open>create_subprocess_exec\<close> does is the environment's choice: the process starts, with
  its two output streams; or \<open>FileNotFoundError\<close> is raised; or another \<open>Exception\<close>, given by
  its \<open>repr\<close>.
\<close>

datatype spawn_result = Started stream stream | FileNotFoundError | StartFailed str

text \<open>
  A running invocation: the two streams, the two relay tasks, the exit status once the
  process has exited, and where the coroutine \<open>run_adb_intent\<close> itself waits:
  in \<open>proc.wait()\<close>, in \<open>await t_out\<close> or in \<open>await t_err\<close>.
\<close>

datatype main_pc = WaitProc | AwaitOut int | AwaitErr int

record runner =
  stdout :: stream
  stderr :: stream
  t_out :: task
  t_err :: task
  exited :: "int option"
  main :: main_pc

datatype run_result = Continue runner | Returned | Raised exn

text \<open>The invocation right after the process has started: both relay tasks created, the
  coroutine in \<open>proc.wait()\<close>.\<close>

definition start_runner :: "stream \<Rightarrow> stream \<Rightarrow> runner" where
  "start_runner out err =
     \<lparr>stdout = out, stderr = err, t_out = Reading 0, t_err = Reading 0,
      exited = None, main = WaitProc\<rparr>"

definition run_adb_intent_spawned :: "notification list \<Rightarrow> spawn_result \<Rightarrow> notification list \<times> run_result" where
  "run_adb_intent_spawned ws r =
     (case r of
        FileNotFoundError \<Rightarrow>
          (send ws Error (ustr ''adb was not found. Please check your PATH.'') None, Returned)
      | StartFailed detail \<Rightarrow>
          (send ws Error (ustr ''Failed to start process: '' @ detail) None, Returned)
      | Started out err \<Rightarrow> (ws, Continue (start_runner out err)))"

text \<open>
  The scheduler's choices while an invocation runs: one pass of a relay's loop, the exit of
  the process, or the coroutine \<open>run_adb_intent\<close> getting past the \<open>await\<close> it is in. A choice
  that is not possible in the state gives \<open>None\<close>.
\<close>

datatype run_event = RelayOut | RelayErr | Exit int | Main

definition run_adb_intent_step ::
  "run_event \<Rightarrow> notification list \<Rightarrow> runner \<Rightarrow> (notification list \<times> run_result) option" where
  "run_adb_intent_step e ws r =
     (case e of
        RelayOut \<Rightarrow>
          (case t_out r of
             Reading k \<Rightarrow>
               (case relay_iter ws (stdout r) k (ustr ''stdout'') of
                  (ws', t) \<Rightarrow> Some (ws', Continue (r\<lparr>t_out := t\<rparr>)))
           | _ \<Rightarrow> None)
      | RelayErr \<Rightarrow>
          (case t_err r of
             Reading k \<Rightarrow>
               (case relay_iter ws (stderr r) k (ustr ''stderr'') of
                  (ws', t) \<Rightarrow> Some (ws', Continue (r\<lparr>t_err := t\<rparr>)))
           | _ \<Rightarrow> None)
      | Exit rc \<Rightarrow>
          (case exited r of
             None \<Rightarrow> Some (ws, Continue (r\<lparr>exited := Some rc\<rparr>))
           | Some _ \<Rightarrow> None)
      | Main \<Rightarrow>
          (case main r of
             WaitProc \<Rightarrow>
               (case exited r of
                  Some rc \<Rightarrow> Some (ws, Continue (r\<lparr>main := AwaitOut rc\<rparr>))
                | None \<Rightarrow> None)
           | AwaitOut rc \<Rightarrow>
               (case t_out r of
                  Finished \<Rightarrow> Some (ws, Continue (r\<lparr>main := AwaitErr rc\<rparr>))
                | Failed x \<Rightarrow> Some (ws, Raised x)
                | Reading _ \<Rightarrow> None)
           | AwaitErr rc \<Rightarrow>
               (case t_err r of
                  Finished \<Rightarrow>
                    Some (send ws Done (ustr ''Exit code: '' @ str_of_int rc) (Some rc), Returned)
                | Failed x \<Rightarrow> Some (ws, Raised x)
                | Reading _ \<Rightarrow> None)))"

text \<open>
  The invocation under a schedule: the events in turn, from a running invocation. After
  the coroutine has returned or raised nothing more can happen in it.
\<close>

fun run_adb_intent_run ::
  "run_event list \<Rightarrow> notification list \<Rightarrow> runner \<Rightarrow> (notification list \<times> run_result) option" where
  "run_adb_intent_run [] ws r = Some (ws, Continue r)"
| "run_adb_intent_run (e # es) ws r =
     (case run_adb_intent_step e ws r of
        None \<Rightarrow> None
      | Some (ws', Continue r') \<Rightarrow> run_adb_intent_run es ws' r'
      | Some (ws', res) \<Rightarrow> if es = [] then Some (ws', res) else None)"

section \<open>The connection session\<close>

text \<open>\<open>s.strip()\<close>: the characters for which \<open>str.isspace\<close> holds are removed at both ends.\<close>

definition isspace :: "nat \<Rightarrow> bool" where
  "isspace c =
     ((9 \<le> c \<and> c \<le> 13) \<or> (28 \<le> c \<and> c \<le> 32) \<or> c = 133 \<or> c = 160 \<or> c = 5760 \<or>
      (8192 \<le> c \<and> c \<le> 8202) \<or> c = 8232 \<or> c = 8233 \<or> c = 8239 \<or> c = 8287 \<or> c = 12288)"

definition strip :: "str \<Rightarrow> str" where
  "strip s = rev (dropWhile isspace (rev (dropWhile isspace s)))"

text \<open>Truth value of a decoded JSON value, and \<open>data.get(key)\<close> on a dict.\<close>

fun truthy :: "json \<Rightarrow> bool" where
  "truthy JNull = False"
| "truthy (JBool b) = b"
| "truthy (JInt i) = (i \<noteq> 0)"
| "truthy (JFloat w) = (push_bit 1 w \<noteq> 0)"
| "truthy (JStr s) = (s \<noteq> [])"
| "truthy (JList xs) = (xs \<noteq> [])"
| "truthy (JDict kvs) = (kvs \<noteq> [])"

definition dict_get :: "(str \<times> json) list \<Rightarrow> str \<Rightarrow> json" where
  "dict_get kvs k = (case map_of kvs k of None \<Rightarrow> JNull | Some v \<Rightarrow> v)"

text \<open>
  The messages the loop \<open>async for msg in ws\<close> meets: a text frame, a binary frame, an error,
  or the close of the connection, which ends the loop.
\<close>

datatype ws_msg = TEXT str | BINARY bytes | ERROR | CLOSE

text \<open>
  Where the handler coroutine is: at the head of its loop waiting for a message (\<open>Idle\<close>),
  inside \<open>run_adb_intent\<close> at the process creation (\<open>Starting\<close>) or with the process running
  (\<open>Running\<close>), returned (\<open>Closed\<close>), or ended by an exception that nothing catches
  (\<open>Crashed\<close>).
\<close>

datatype pc = Idle | Starting "str list" | Running runner | Closed | Crashed exn

text \<open>The body of the loop for one message, up to the call of \<open>create_subprocess_exec\<close>.\<close>

definition on_message :: "pylib \<Rightarrow> ws_msg \<Rightarrow> notification list \<Rightarrow> notification list \<times> pc" where
  "on_message lib msg ws =
     (case msg of
        TEXT data \<Rightarrow>
          (case json_loads lib data of
             Inl x \<Rightarrow>
               if x = JSONDecodeError
               then (send ws Error
                       (ustr ''Please send data in JSON format. Example: {\"type\":\"open\",\"url\":\"...\"}'')
                       None, Idle)
               else (ws, Crashed x)
           | Inr (JDict kvs) \<Rightarrow>
               (let t = dict_get kvs (ustr ''type'') in
                if t = JStr (ustr ''open'') then
                  (case (if truthy (dict_get kvs (ustr ''url'')) then dict_get kvs (ustr ''url'')
                         else JStr []) of
                     JStr v \<Rightarrow>
                       (let url = strip v;
                            ws1 = send ws Log (ustr ''Received URL: '' @ url) None
                        in if \<not> is_valid_youtube_url lib url
                           then (send ws1 Error
                                   (ustr ''The URL is invalid as a YouTube URL (check allowed domains/formats).'')
                                   None, Idle)
                           else (case run_adb_intent_begin ws1 url of
                                   (ws2, cmd) \<Rightarrow> (ws2, Starting cmd)))
                   | _ \<Rightarrow> (ws, Crashed AttributeError))
                else if t = JStr (ustr ''ping'') then (send ws Pong (ustr ''pong'') None, Idle)
                else (send ws Error (ustr ''Unknown type: '' @ py_repr lib t) None, Idle))
           | Inr _ \<Rightarrow> (ws, Crashed AttributeError))
      | BINARY _ \<Rightarrow> (ws, Idle)
      | ERROR \<Rightarrow> (ws, Closed)
      | CLOSE \<Rightarrow> (ws, Closed))"

text \<open>
  The session: the messages received and not yet taken by the loop, the handler's place,
  the notifications sent, the argument vectors of the processes started, and the number of
  invocations that have ended.
\<close>

record session =
  inbox :: "ws_msg list"
  pc :: pc
  sent :: "notification list"
  started :: "str list list"
  ended :: nat

definition websocket_handler_init :: session where
  "websocket_handler_init =
     \<lparr>inbox = [], pc = Idle,
      sent = send [] Log (ustr ''WebSocket connected. Please send a YouTube URL.'') None,
      started = [], ended = 0\<rparr>"

text \<open>
  What can happen next: a message arrives; the loop takes the next message (only at its
  head); the process creation answers; the running invocation moves.
\<close>

datatype event = Arrive ws_msg | Dispatch | Spawn spawn_result | Proc run_event

definition websocket_handler_step :: "pylib \<Rightarrow> event \<Rightarrow> session \<Rightarrow> session option" where
  "websocket_handler_step lib e s =
     (case e of
        Arrive m \<Rightarrow>
          (case pc s of
             Closed \<Rightarrow> None
           | Crashed _ \<Rightarrow> None
           | _ \<Rightarrow> Some (s\<lparr>inbox := inbox s @ [m]\<rparr>))
      | Dispatch \<Rightarrow>
          (case pc s of
             Idle \<Rightarrow>
               (case inbox s of
                  [] \<Rightarrow> None
                | m # rest \<Rightarrow>
                    (case on_message lib m (sent s) of
                       (ws', pc') \<Rightarrow> Some (s\<lparr>inbox := rest, pc := pc', sent := ws'\<rparr>)))
           | _ \<Rightarrow> None)
      | Spawn r \<Rightarrow>
          (case pc s of
             Starting cmd \<Rightarrow>
               (case run_adb_intent_spawned (sent s) r of
                  (ws', Continue rn) \<Rightarrow>
                    Some (s\<lparr>pc := Running rn, sent := ws', started := started s @ [cmd]\<rparr>)
                | (ws', Returned) \<Rightarrow> Some (s\<lparr>pc := Idle, sent := ws'\<rparr>)
                | (ws', Raised x) \<Rightarrow> Some (s\<lparr>pc := Crashed x, sent := ws'\<rparr>))
           | _ \<Rightarrow> None)
      | Proc pe \<Rightarrow>
          (case pc s of
             Running rn \<Rightarrow>
               (case run_adb_intent_step pe (sent s) rn of
                  None \<Rightarrow> None
                | Some (ws', Continue rn') \<Rightarrow> Some (s\<lparr>pc := Running rn', sent := ws'\<rparr>)
                | Some (ws', Returned) \<Rightarrow>
                    Some (s\<lparr>pc := Idle, sent := ws', ended := ended s + 1\<rparr>)
                | Some (ws', Raised x) \<Rightarrow>
                    Some (s\<lparr>pc := Crashed x, sent := ws', ended := ended s + 1\<rparr>))
           | _ \<Rightarrow> None))"

text \<open>A run of the session: the events in turn; \<open>None\<close> when one of them is not possible.\<close>

fun run :: "pylib \<Rightarrow> event list \<Rightarrow> session \<Rightarrow> session option" where
  "run lib [] s = Some s"
| "run lib (e # es) s =
     (case websocket_handler_step lib e s of
        None \<Rightarrow> None
      | Some s' \<Rightarrow> run lib es s')"

text \<open>
  The invocations in flight: started and not ended. A frame that decodes to a request of
  kind \<open>ping\<close>.
\<close>

definition active :: "session \<Rightarrow> nat" where
  "active s = length (started s) - ended s"

definition is_running :: "pc \<Rightarrow> bool" where
  "is_running p = (case p of Running _ \<Rightarrow> True | _ \<Rightarrow> False)"

definition is_ping :: "pylib \<Rightarrow> ws_msg \<Rightarrow> bool" where
  "is_ping lib m =
     (case m of
        TEXT d \<Rightarrow>
          (case json_loads lib d of
             Inr (JDict kvs) \<Rightarrow> dict_get kvs (ustr ''type'') = JStr (ustr ''ping'')
           | _ \<Rightarrow> False)
      | _ \<Rightarrow> False)"

section \<open>Invariants of the runner and of the session\<close>

text \<open>The completion notification for an exit code.\<close>

definition done_notification :: "int \<Rightarrow> notification" where
  "done_notification rc =
     \<lparr>kind = Done, message = ustr ''Exit code: '' @ str_of_int rc, returncode = Some rc\<rparr>"

text \<open>
  How far a relay task has got on its stream: it has taken exactly the first \<open>n\<close> reads as
  lines, and it is still reading, or read number \<open>n\<close> was the end of the stream, or read
  number \<open>n\<close> raised.
\<close>

fun progress :: "stream \<Rightarrow> task \<Rightarrow> nat \<Rightarrow> bool" where
  "progress st (Reading k) n = (n = k \<and> (\<forall>i<k. is_line (st i)))"
| "progress st Finished n = (st n = Inr [] \<and> (\<forall>i<n. is_line (st i)))"
| "progress st (Failed x) n = (st n = Inl x \<and> (\<forall>i<n. is_line (st i)))"

text \<open>
  The invariant of a running invocation: what it has sent is an interleaving of the log
  lines the two relays have produced so far, each relay's lines in their order; the
  coroutine is past \<open>proc.wait()\<close> only with the exit code, and past \<open>await t_out\<close> only with
  the first relay finished.
\<close>

definition runner_inv :: "stream \<Rightarrow> stream \<Rightarrow> runner \<Rightarrow> notification list \<Rightarrow> bool" where
  "runner_inv out err r zs =
     (stdout r = out \<and> stderr r = err \<and>
      (\<exists>n m. progress out (t_out r) n \<and> progress err (t_err r) m \<and>
             zs \<in> shuffles (relay_logs (ustr ''stdout'') out n) (relay_logs (ustr ''stderr'') err m)) \<and>
      (case main r of
         WaitProc \<Rightarrow> True
       | AwaitOut rc \<Rightarrow> exited r = Some rc
       | AwaitErr rc \<Rightarrow> exited r = Some rc \<and> t_out r = Finished))"

text \<open>
  In a list of notifications, every \<open>pong\<close> comes after a \<open>done\<close>: the part before the
  first \<open>pong\<close> holds a \<open>done\<close>.
\<close>

definition pong_after_done :: "notification list \<Rightarrow> bool" where
  "pong_after_done new =
     (Pong \<in> kind ` set new \<longrightarrow> Done \<in> kind ` set (takeWhile (\<lambda>n. kind n \<noteq> Pong) new))"

text \<open>
  The invariants of the session: the invocations started and not ended are one when the
  handler is in a running invocation and none otherwise; and, for the notifications sent
  since some moment of a running invocation, either they are all log lines and the handler
  is still in that invocation (or dead), or a \<open>done\<close> comes before any \<open>pong\<close>.
\<close>

definition count_inv :: "session \<Rightarrow> bool" where
  "count_inv s = (length (started s) = ended s + (if is_running (pc s) then 1 else 0))"

definition seq_inv :: "notification list \<Rightarrow> pc \<Rightarrow> bool" where
  "seq_inv new p =
     (((\<forall>n \<in> set new. kind n = Log) \<and> (case p of Running _ \<Rightarrow> True | Crashed _ \<Rightarrow> True | _ \<Rightarrow> False)) \<or>
      Done \<in> kind ` set (takeWhile (\<lambda>n. kind n \<noteq> Pong) new))"

section \<open>Evaluating the model\<close>

text \<open>
  One fixed value of the library parameters, for running the model on concrete inputs. The
  inputs used below are ASCII and have no bracketed host, so that none of the first three
  parameters is consulted; \<open>json_loads\<close> decodes the frames of the examples, raises
  \<open>RecursionError\<close> on the frame of 1200 opening brackets, as \<open>json.loads\<close> of CPython does on
  a nesting that deep, and rejects every other text with \<open>JSONDecodeError\<close>.
\<close>

definition example_ping :: str where
  "example_ping = ustr ''{\"type\":\"ping\"}''"

definition example_open :: str where
  "example_open = ustr ''{\"type\":\"open\",\"url\":\" https://youtu.be/dQw4w9WgXcQ \"}''"

definition example_open_null :: str where
  "example_open_null = ustr ''{\"type\":\"open\",\"url\":null}''"

definition example_deep :: str where
  "example_deep = replicate 1200 91"

definition example_frames :: "(str \<times> json) list" where
  "example_frames =
     [(example_ping, JDict [(ustr ''type'', JStr (ustr ''ping''))]),
      (example_open,
         JDict [(ustr ''type'', JStr (ustr ''open'')),
                (ustr ''url'', JStr (ustr '' https://youtu.be/dQw4w9WgXcQ ''))]),
      (example_open_null,
         JDict [(ustr ''type'', JStr (ustr ''open'')), (ustr ''url'', JNull)])]"

definition example_lib :: pylib where
  "example_lib =
     \<lparr>str_lower_ext = (\<lambda>s. s),
      normalize_NFKC = (\<lambda>s. s),
      ip_address = (\<lambda>s. None),
      json_loads = (\<lambda>s. case map_of example_frames s of
                              None \<Rightarrow> if s = example_deep then Inl RecursionError
                                      else Inl JSONDecodeError
                            | Some v \<Rightarrow> Inr v),
      py_repr = (\<lambda>v. [])\<rparr>"

text \<open>
  The two output streams of an example process: standard
  output gives \<open>ok\<close> followed by the byte \<open>0xFF\<close> and a newline, then the two bytes
  \<open>0xE2 0x82\<close> of a cut-off character with no newline; standard error gives \<open>w\<close> and a
  newline.
\<close>

definition example_stdout :: stream where
  "example_stdout = readline_stream [[0x6F, 0x6B, 0xFF, 0x0A], [0xE2, 0x82]]"

definition example_stderr :: stream where
  "example_stderr = readline_stream [[0x77, 0x0A]]"

text \<open>The argument vector for the example URL, and the session waiting for its process.\<close>

definition example_cmd :: "str list" where
  "example_cmd = run_adb_intent_cmd (ustr ''https://youtu.be/dQw4w9WgXcQ'')"

definition example_starting :: session where
  "example_starting = websocket_handler_init\<lparr>pc := Starting example_cmd\<rparr>"

text \<open>
  The session of the example with its process running and a ping waiting in the inbox, and
  the session after the process has ended and the ping has been answered.
\<close>

definition example_running :: session where
  "example_running =
     \<lparr>inbox = [TEXT example_ping],
      pc = Running (start_runner example_stdout example_stderr),
      sent = sent websocket_handler_init @
        [\<lparr>kind = Log, message = ustr ''Received URL: https://youtu.be/dQw4w9WgXcQ'',
           returncode = None\<rparr>,
         \<lparr>kind = Log, message = ustr ''Command executed: '' @ json_dumps_strs example_cmd,
           returncode = None\<rparr>],
      started = [example_cmd], ended = 0\<rparr>"

definition example_answered :: session where
  "example_answered =
     \<lparr>inbox = [], pc = Idle,
      sent = sent example_running @
        [\<lparr>kind = Log, message = ustr ''[stdout] ok'' @ [65533], returncode = None\<rparr>,
         \<lparr>kind = Log, message = ustr ''[stderr] w'', returncode = None\<rparr>,
         \<lparr>kind = Log, message = ustr ''[stdout] '' @ [65533], returncode = None\<rparr>,
         done_notification (- 9),
         \<lparr>kind = Pong, message = ustr ''pong'', returncode = None\<rparr>],
      started = [example_cmd], ended = 1\<rparr>"

section \<open>Properties of the URL validator\<close>

text \<open>
  Claim C1, as the code has it: the validator accepts a string exactly when it parses, the
  parsed scheme is \<open>http\<close> or \<open>https\<close>, the lowercased network location (the whole authority
  of the URL: the host together with any user information and port) is one of the five allowed
  names, and the path meets the rule of that name: for \<open>youtu.be\<close> and \<open>www.youtu.be\<close> it is
  neither empty nor \<open>/\<close>, for the other three it starts with \<open>/watch\<close>, \<open>/shorts\<close>,
  \<open>/live\<close> or \<open>/embed\<close>.
\<close>

theorem is_valid_youtube_url_iff:
  "is_valid_youtube_url lib url \<longleftrightarrow>
     (\<exists>u. urlparse lib url = Inr u \<and>
          scheme u \<in> ustr ` {''http'', ''https''} \<and>
          lower lib (netloc u) \<in> allowed_hosts \<and>
          (if lower lib (netloc u) \<in> ustr ` {''youtu.be'', ''www.youtu.be''}
           then path u \<noteq> [] \<and> path u \<noteq> ustr ''/''
           else (\<exists>p \<in> ustr ` {''/watch'', ''/shorts'', ''/live'', ''/embed''}.
                   startswith (path u) p)))"
  by (cases "urlparse lib url")
     (auto simp: is_valid_youtube_url_def allowed_hosts_def Let_def)

text \<open>
  The characterisation at two inputs of the specification's examples: a short link is
  accepted, the bare \<open>https://youtu.be/\<close> is not.
\<close>

theorem is_valid_youtube_url_iff_witness:
  "is_valid_youtube_url example_lib (ustr ''https://youtu.be/dQw4w9WgXcQ'') \<and>
   \<not> is_valid_youtube_url example_lib (ustr ''https://youtu.be/'')"
proof -
  have p1: "urlparse example_lib (ustr ''https://youtu.be/dQw4w9WgXcQ'') =
      Inr \<lparr>scheme = ustr ''https'', netloc = ustr ''youtu.be'', path = ustr ''/dQw4w9WgXcQ'',
            params = [], query = [], fragment = []\<rparr>"
    by code_simp
  have p2: "urlparse example_lib (ustr ''https://youtu.be/'') =
      Inr \<lparr>scheme = ustr ''https'', netloc = ustr ''youtu.be'', path = ustr ''/'',
            params = [], query = [], fragment = []\<rparr>"
    by code_simp
  have h: "lower example_lib (ustr ''youtu.be'') = ustr ''youtu.be''"
    by code_simp
  have a: "ustr ''youtu.be'' \<in> allowed_hosts"
    by (simp add: allowed_hosts_def)
  show ?thesis
    unfolding is_valid_youtube_url_iff p1 p2
    using h a by (simp add: ustr_def)
qed

text \<open>
  Claim C1 as stated fails: \<open>https://youtube.com:443/watch\<close> parses as a URL with scheme
  \<open>https\<close>, host \<open>youtube.com\<close> and path \<open>/watch\<close>, and the validator rejects it, because
  it compares the network location \<open>youtube.com:443\<close> with the allowed names.
\<close>

theorem is_valid_youtube_url_host_counterexample:
  "urlparse example_lib (ustr ''https://youtube.com:443/watch'') =
     Inr \<lparr>scheme = ustr ''https'', netloc = ustr ''youtube.com:443'', path = ustr ''/watch'',
           params = [], query = [], fragment = []\<rparr> \<and>
   hostname example_lib
     \<lparr>scheme = ustr ''https'', netloc = ustr ''youtube.com:443'', path = ustr ''/watch'',
       params = [], query = [], fragment = []\<rparr> = Some (ustr ''youtube.com'') \<and>
   ustr ''youtube.com'' \<in> allowed_hosts \<and>
   startswith (ustr ''/watch'') (ustr ''/watch'') \<and>
   \<not> is_valid_youtube_url example_lib (ustr ''https://youtube.com:443/watch'')"
  by code_simp

section \<open>The examples evaluated\<close>

lemma example_loads:
  "json_loads example_lib (ustr ''garbage'') = Inl JSONDecodeError"
  "json_loads example_lib example_ping = Inr (JDict [(ustr ''type'', JStr (ustr ''ping''))])"
  "json_loads example_lib example_open =
     Inr (JDict [(ustr ''type'', JStr (ustr ''open'')),
                 (ustr ''url'', JStr (ustr '' https://youtu.be/dQw4w9WgXcQ ''))])"
  "json_loads example_lib example_open_null =
     Inr (JDict [(ustr ''type'', JStr (ustr ''open'')), (ustr ''url'', JNull)])"
  by code_simp+

lemma replicate_neq_Cons: "x \<noteq> y \<Longrightarrow> replicate n x \<noteq> y # ys"
  by (cases n) simp_all

lemma example_deep_loads: "json_loads example_lib example_deep = Inl RecursionError"
  by (simp add: example_lib_def example_frames_def example_deep_def example_ping_def
        example_open_def example_open_null_def ustr_def replicate_neq_Cons)

lemma example_gets:
  "dict_get [(ustr ''type'', JStr (ustr ''ping''))] (ustr ''type'') = JStr (ustr ''ping'')"
  "dict_get [(ustr ''type'', JStr (ustr ''open'')), (ustr ''url'', v)] (ustr ''type'') = JStr (ustr ''open'')"
  "dict_get [(ustr ''type'', JStr (ustr ''open'')), (ustr ''url'', v)] (ustr ''url'') = v"
  "map_of [(ustr ''type'', JStr (ustr ''open'')), (ustr ''url'', v)] (ustr ''url'') = Some v"
  by (simp_all add: dict_get_def ustr_def)

lemma example_url:
  "strip (ustr '' https://youtu.be/dQw4w9WgXcQ '') = ustr ''https://youtu.be/dQw4w9WgXcQ''"
  "is_valid_youtube_url example_lib (ustr ''https://youtu.be/dQw4w9WgXcQ'')"
  by code_simp+

lemma example_stdout_reads:
  "example_stdout 0 = Inr [0x6F, 0x6B, 0xFF, 0x0A]" "example_stdout (Suc 0) = Inr [0xE2, 0x82]"
  "example_stdout 2 = Inr []"
  by (simp_all add: example_stdout_def readline_stream_def readline_limit_def chomp_def)

lemma example_stdout_readlines:
  "is_readline (example_stdout 0)" "is_readline (example_stdout (Suc 0))"
  by (simp_all add: is_readline_def example_stdout_reads)

lemma example_chomped:
  "decode_replace (chomp [0x6F, 0x6B, 0xFF, 0x0A]) = [111, 107, 65533]"
  "decode_replace (chomp [0xE2, 0x82]) = [65533]"
  by (simp_all add: chomp_def Let_def second_ok_def is_cont_def)

lemma example_stderr_reads:
  "example_stderr 0 = Inr [0x77, 0x0A]" "example_stderr (Suc 0) = Inr []"
  by (simp_all add: example_stderr_def readline_stream_def readline_limit_def chomp_def)

lemma example_stdout_logs:
  "relay_logs (ustr ''stdout'') example_stdout 2 =
     [\<lparr>kind = Log, message = ustr ''[stdout] ok'' @ [65533], returncode = None\<rparr>,
      \<lparr>kind = Log, message = ustr ''[stdout] '' @ [65533], returncode = None\<rparr>]"
proof -
  have "[0..<2] = [0, Suc 0]" by (simp add: upt_rec)
  then show ?thesis
    by (simp add: relay_logs_def example_stdout_reads rstrip_newline_def ustr_def Let_def
          second_ok_def is_cont_def)
qed

lemma example_stderr_logs:
  "relay_logs (ustr ''stderr'') example_stderr 1 =
     [\<lparr>kind = Log, message = ustr ''[stderr] w'', returncode = None\<rparr>]"
  by (simp add: relay_logs_def example_stderr_reads rstrip_newline_def ustr_def Let_def)


lemma example_schedule:
  "run_adb_intent_run [RelayOut, RelayErr, Exit (- 9), RelayOut, Main, RelayErr, RelayOut, Main, Main] ws
     (start_runner example_stdout example_stderr) =
   Some (ws @
         [\<lparr>kind = Log, message = ustr ''[stdout] ok'' @ [65533], returncode = None\<rparr>,
          \<lparr>kind = Log, message = ustr ''[stderr] w'', returncode = None\<rparr>,
          \<lparr>kind = Log, message = ustr ''[stdout] '' @ [65533], returncode = None\<rparr>,
          done_notification (- 9)], Returned)"
  by (simp add: run_adb_intent_step_def start_runner_def relay_iter_def send_def
        example_stdout_reads example_stderr_reads numeral_2_eq_2[symmetric]
        rstrip_newline_def ustr_def Let_def second_ok_def is_cont_def done_notification_def)

lemma example_run_to_running:
  "run example_lib
     [Arrive (TEXT example_open), Dispatch, Spawn (Started example_stdout example_stderr),
      Arrive (TEXT example_ping)] websocket_handler_init = Some example_running"
  by (simp add: websocket_handler_step_def websocket_handler_init_def on_message_def
        example_loads example_gets example_url run_adb_intent_begin_def run_adb_intent_spawned_def
        send_def example_cmd_def example_running_def Let_def)
     (simp add: ustr_def)

lemma example_run_to_answered:
  "run example_lib
     [Proc RelayOut, Proc RelayErr, Proc (Exit (- 9)), Proc RelayOut, Proc Main, Proc RelayErr,
      Proc RelayOut, Proc Main, Proc Main, Dispatch] example_running = Some example_answered"
  by (simp add: websocket_handler_step_def on_message_def example_loads example_gets
        run_adb_intent_step_def start_runner_def relay_iter_def send_def
        example_stdout_reads example_stderr_reads numeral_2_eq_2[symmetric]
        rstrip_newline_def Let_def second_ok_def is_cont_def done_notification_def
        example_running_def example_answered_def)
     (simp add: ustr_def)

section \<open>Properties of the command runner's argument vector\<close>

lemma shlex_quote_safe: "s \<noteq> [] \<Longrightarrow> \<forall>c \<in> set s. shlex_safe c \<Longrightarrow> shlex_quote s = s"
  by (simp add: shlex_quote_def)

lemma shlex_quote_unsafe:
  "\<not> (\<forall>c \<in> set s. shlex_safe c) \<Longrightarrow>
     shlex_quote s = [39] @ concat (map (\<lambda>c. if c = 39 then [39, 34, 39, 34, 39] else [c]) s) @ [39]"
  by (auto simp add: shlex_quote_def)



section \<open>Properties of the output relay\<close>

lemma relay_general:
  assumes "\<not> is_line (st n)" and "\<forall>i<n. is_line (st i)"
  shows "k \<le> n \<Longrightarrow> stream_process_output ws st k prefix =
           Some (ws @ map (\<lambda>i. \<lparr>kind = Log,
                message = ustr ''['' @ prefix @ ustr ''] '' @
                          rstrip_newline (decode_replace (projr (st i))),
                returncode = None\<rparr>) [k..<n],
                 case st n of Inl e \<Rightarrow> Inl e | Inr _ \<Rightarrow> Inr ())"
proof (induction "n - k" arbitrary: k ws)
  case 0
  then have "k = n" by simp
  then show ?case
    using assms(1)
    by (subst stream_process_output.simps) (simp add: relay_iter_def is_line_def split: sum.splits)
next
  case (Suc d)
  then have kn: "k < n" by simp
  with assms(2) have "is_line (st k)" by simp
  then obtain l where l: "st k = Inr l" "l \<noteq> []"
    by (cases "st k") (auto simp: is_line_def)
  have "d = n - Suc k" "Suc k \<le> n" using Suc.hyps(2) kn by simp_all
  from Suc.hyps(1)[OF this]
  show ?case
    using l kn by (subst stream_process_output.simps) (simp add: relay_iter_def send_def upt_conv_Cons)
qed

text \<open>
  The decoder: ASCII bytes decode to themselves, also at the end of any input; every code
  point that comes from a multi-byte sequence or from a replacement is 128 or more, so that
  a newline in the text can only come from a newline byte. Hence, for a line as \<open>readline\<close>
  gives it, the text the relay sends is the decoding of the line without its trailing
  newline.
\<close>

lemma not_cont: "unat b < 128 \<Longrightarrow> \<not> is_cont b" "unat b < 128 \<Longrightarrow> \<not> second_ok ch b"
  by (auto simp: is_cont_def second_ok_def)

lemma decode_replace_ascii: "\<forall>b \<in> set bs. unat b < 128 \<Longrightarrow> decode_replace bs = map unat bs"
  by (induction bs) (simp_all add: Let_def)

lemma decode_replace_snoc_ascii:
  "unat b < 128 \<Longrightarrow> decode_replace (bs @ [b]) = decode_replace bs @ [unat b]"
proof (induction bs rule: length_induct)
  case (1 bs)
  note b = "1.prems"
  have ih: "length ys < length bs \<Longrightarrow> decode_replace (ys @ [b]) = decode_replace ys @ [unat b]" for ys
    using 1 by blast
  have s0: "decode_replace [b] = [unat b]"
    using b by (simp add: Let_def)
  show ?case
  proof (cases bs)
    case Nil
    then show ?thesis using b by (simp add: Let_def)
  next
    case (Cons c cs)
    have s1: "decode_replace (cs @ [b]) = decode_replace cs @ [unat b]"
      using ih[of cs] Cons by simp
    show ?thesis
    proof (cases cs)
      case Nil
      then show ?thesis using b Cons by (simp add: Let_def not_cont)
    next
      case c2: (Cons b2 r2)
      have s2: "decode_replace (r2 @ [b]) = decode_replace r2 @ [unat b]"
        using ih[of r2] Cons c2 by simp
      show ?thesis
      proof (cases r2)
        case Nil
        then show ?thesis
          using b s1 unfolding Cons c2
          by (simp add: decode_replace.simps(2)[of c] s0 Let_def not_cont del: decode_replace.simps(2))
      next
        case c3: (Cons b3 r3)
        have s3: "decode_replace (r3 @ [b]) = decode_replace r3 @ [unat b]"
          using ih[of r3] Cons c2 c3 by simp
        show ?thesis
        proof (cases r3)
          case Nil
          then show ?thesis
            using b s1 s2 unfolding Cons c2 c3
            by (simp add: decode_replace.simps(2)[of c] s0 Let_def not_cont del: decode_replace.simps(2))
        next
          case c4: (Cons b4 r4)
          have s4: "decode_replace (r4 @ [b]) = decode_replace r4 @ [unat b]"
            using ih[of r4] Cons c2 c3 c4 by simp
          show ?thesis
            using b s1 s2 s3 s4 unfolding Cons c2 c3 c4
            by (simp add: decode_replace.simps(2)[of c] s0 Let_def not_cont del: decode_replace.simps(2))
        qed
      qed
    qed
  qed
qed


lemma mod_in_block:
  assumes "q * n \<le> m" and "m < q * n + n"
  shows "(m::nat) mod n = m - q * n"
proof -
  have "(m - q * n + q * n) mod n = (m - q * n) mod n"
    by (rule mod_mult_self1)
  moreover have "m - q * n + q * n = m"
    using assms(1) by simp
  moreover have "m - q * n < n"
    using assms by linarith
  ultimately show ?thesis by simp
qed

lemma cbits_cont: "is_cont b \<Longrightarrow> cbits b = unat b - 128"
  unfolding cbits_def is_cont_def using mod_in_block[of 2 64 "unat b"] by simp

lemma two_byte_value:
  assumes "194 \<le> ch" and "ch < 224"
  shows "128 \<le> ch mod 32 * 64 + (x::nat)"
proof -
  have "ch mod 32 = ch - 192"
    using mod_in_block[of 6 32 ch] assms by simp
  with assms have "2 \<le> ch mod 32" by simp
  then have "2 * 64 \<le> ch mod 32 * 64" by (rule mult_le_mono1)
  then show ?thesis by simp
qed

lemma three_byte_value:
  assumes "224 \<le> ch" and "ch < 240" and "second_ok ch b2"
  shows "2048 \<le> ch mod 16 * 4096 + cbits b2 * 64 + (y::nat)"
proof (cases "ch = 224")
  case True
  with assms(3) have "is_cont b2" "160 \<le> unat b2"
    by (auto simp: second_ok_def)
  then have "32 \<le> cbits b2" by (simp add: cbits_cont)
  then have "32 * 64 \<le> cbits b2 * 64" by (rule mult_le_mono1)
  then show ?thesis by simp
next
  case False
  have "ch mod 16 = ch - 224"
    using mod_in_block[of 14 16 ch] assms by simp
  with assms False have "1 \<le> ch mod 16" by simp
  then have "1 * 4096 \<le> ch mod 16 * 4096" by (rule mult_le_mono1)
  then show ?thesis by simp
qed

lemma four_byte_value:
  assumes "240 \<le> ch" and "ch < 245" and "second_ok ch b2"
  shows "65536 \<le> ch mod 8 * 262144 + cbits b2 * 4096 + (y::nat)"
proof (cases "ch = 240")
  case True
  with assms(3) have "is_cont b2" "144 \<le> unat b2"
    by (auto simp: second_ok_def)
  then have "16 \<le> cbits b2" by (simp add: cbits_cont)
  then have "16 * 4096 \<le> cbits b2 * 4096" by (rule mult_le_mono1)
  then show ?thesis by simp
next
  case False
  have "ch mod 8 = ch - 240"
    using mod_in_block[of 30 8 ch] assms by simp
  with assms False have "1 \<le> ch mod 8" by simp
  then have "1 * 262144 \<le> ch mod 8 * 262144" by (rule mult_le_mono1)
  then show ?thesis by simp
qed

lemma decode_replace_Cons:
  "(unat c < 128 \<and> decode_replace (c # cs) = unat c # decode_replace cs) \<or>
   (\<exists>v k. 128 \<le> v \<and> decode_replace (c # cs) = v # decode_replace (drop k cs))"
proof -
  note unfold = decode_replace.simps(2)[of c]
  have stop: "decode_replace (c # cs) = [65533] \<Longrightarrow> ?thesis"
    by (intro disjI2 exI[of _ 65533] exI[of _ "length cs"]) simp
  have skip: "decode_replace (c # cs) = 65533 # decode_replace cs \<Longrightarrow> ?thesis"
    by (intro disjI2 exI[of _ 65533] exI[of _ 0]) simp
  consider (ascii) "unat c < 128" | (start) "128 \<le> unat c" "unat c < 194 \<or> 245 \<le> unat c"
    | (lead) "194 \<le> unat c" "unat c < 245"
    by linarith
  then show ?thesis
  proof cases
    case ascii
    then show ?thesis by (simp add: Let_def)
  next
    case start
    then have "decode_replace (c # cs) = 65533 # decode_replace cs"
      by (auto simp: Let_def)
    then show ?thesis by (rule skip)
  next
    case lead
    then have hd: "\<not> unat c < 128" "\<not> (unat c < 194 \<or> 245 \<le> unat c)" by simp_all
    show ?thesis
    proof (cases cs)
      case Nil
      then have "decode_replace (c # cs) = [65533]" using hd by (simp add: Let_def)
      then show ?thesis by (rule stop)
    next
      case c2: (Cons b2 r2)
      show ?thesis
      proof (cases "second_ok (unat c) b2")
        case False
        then have "decode_replace (c # cs) = 65533 # decode_replace cs"
          using hd unfolding c2 by (simp add: unfold Let_def del: decode_replace.simps(2))
        then show ?thesis by (rule skip)
      next
        case ok: True
        show ?thesis
        proof (cases "unat c < 224")
          case True
          then have "decode_replace (c # cs) =
              (unat c mod 32 * 64 + cbits b2) # decode_replace (drop 1 cs)"
            using hd ok unfolding c2 by (simp add: unfold Let_def del: decode_replace.simps(2))
          moreover have "128 \<le> unat c mod 32 * 64 + cbits b2"
            using lead True by (intro two_byte_value) simp_all
          ultimately show ?thesis by blast
        next
          case ge224: False
          show ?thesis
          proof (cases r2)
            case Nil
            then have "decode_replace (c # cs) = [65533]"
              using hd ok ge224 unfolding c2 by (simp add: unfold Let_def del: decode_replace.simps(2))
            then show ?thesis by (rule stop)
          next
            case c3: (Cons b3 r3)
            show ?thesis
            proof (cases "is_cont b3")
              case False
              then have "decode_replace (c # cs) = 65533 # decode_replace (drop 1 cs)"
                using hd ok ge224 unfolding c2 c3
                by (simp add: unfold Let_def del: decode_replace.simps(2))
              then show ?thesis by (intro disjI2 exI[of _ 65533] exI[of _ 1]) simp
            next
              case ok3: True
              show ?thesis
              proof (cases "unat c < 240")
                case True
                then have "decode_replace (c # cs) =
                    (unat c mod 16 * 4096 + cbits b2 * 64 + cbits b3) # decode_replace (drop 2 cs)"
                  using hd ok ge224 ok3 unfolding c2 c3
                  by (simp add: unfold Let_def del: decode_replace.simps(2))
                moreover have "2048 \<le> unat c mod 16 * 4096 + cbits b2 * 64 + cbits b3"
                  using ge224 True ok by (intro three_byte_value) simp_all
                ultimately show ?thesis
                  by (intro disjI2 exI[of _ "unat c mod 16 * 4096 + cbits b2 * 64 + cbits b3"]
                        exI[of _ 2]) simp
              next
                case ge240: False
                show ?thesis
                proof (cases r3)
                  case Nil
                  then have "decode_replace (c # cs) = [65533]"
                    using hd ok ge224 ok3 ge240 unfolding c2 c3
                    by (simp add: unfold Let_def del: decode_replace.simps(2))
                  then show ?thesis by (rule stop)
                next
                  case c4: (Cons b4 r4)
                  show ?thesis
                  proof (cases "is_cont b4")
                    case False
                    then have "decode_replace (c # cs) = 65533 # decode_replace (drop 2 cs)"
                      using hd ok ge224 ok3 ge240 unfolding c2 c3 c4
                      by (simp add: unfold Let_def del: decode_replace.simps(2))
                    then show ?thesis by (intro disjI2 exI[of _ 65533] exI[of _ 2]) simp
                  next
                    case True
                    then have "decode_replace (c # cs) =
                        (unat c mod 8 * 262144 + cbits b2 * 4096 + (cbits b3 * 64 + cbits b4))
                          # decode_replace (drop 3 cs)"
                      using hd ok ge224 ok3 ge240 unfolding c2 c3 c4
                      by (simp add: unfold Let_def del: decode_replace.simps(2))
                    moreover have "65536 \<le> unat c mod 8 * 262144 + cbits b2 * 4096 +
                        (cbits b3 * 64 + cbits b4)"
                      using ge240 lead ok by (intro four_byte_value) simp_all
                    ultimately show ?thesis
                      by (intro disjI2
                            exI[of _ "unat c mod 8 * 262144 + cbits b2 * 4096 + (cbits b3 * 64 + cbits b4)"]
                            exI[of _ 3]) simp
                  qed
                qed
              qed
            qed
          qed
        qed
      qed
    qed
  qed
qed

lemma decode_replace_low:
  "x \<in> set (decode_replace bs) \<Longrightarrow> x < 128 \<Longrightarrow> x \<in> unat ` set bs"
proof (induction bs rule: length_induct)
  case (1 bs)
  show ?case
  proof (cases bs)
    case Nil
    with 1 show ?thesis by simp
  next
    case (Cons c cs)
    have ih: "x \<in> set (decode_replace (drop k cs)) \<Longrightarrow> x \<in> unat ` set bs" for k
    proof -
      assume a: "x \<in> set (decode_replace (drop k cs))"
      have "length (drop k cs) < length bs" using Cons by simp
      with 1 a have "x \<in> unat ` set (drop k cs)" by blast
      then show ?thesis using Cons set_drop_subset[of k cs] by auto
    qed
    from decode_replace_Cons[of c cs] show ?thesis
    proof
      assume "unat c < 128 \<and> decode_replace (c # cs) = unat c # decode_replace cs"
      with 1(2) Cons ih[of 0] show ?thesis by auto
    next
      assume "\<exists>v k. 128 \<le> v \<and> decode_replace (c # cs) = v # decode_replace (drop k cs)"
      then obtain v k where "128 \<le> v" "decode_replace (c # cs) = v # decode_replace (drop k cs)"
        by blast
      with 1(2,3) Cons ih[of k] show ?thesis by auto
    qed
  qed
qed

lemma rstrip_newline_keep: "10 \<notin> set xs \<Longrightarrow> rstrip_newline xs = xs"
proof -
  assume "10 \<notin> set xs"
  then have "dropWhile (\<lambda>c. c = 10) (rev xs) = rev xs"
    by (cases "rev xs") auto
  then show ?thesis by (simp add: rstrip_newline_def)
qed

lemma rstrip_newline_snoc: "rstrip_newline (xs @ [10]) = rstrip_newline xs"
  by (simp add: rstrip_newline_def)

lemma decode_replace_no_newline:
  assumes "10 \<notin> set bs"
  shows "10 \<notin> set (decode_replace bs)"
proof
  assume "10 \<in> set (decode_replace bs)"
  from decode_replace_low[OF this] obtain b where b: "b \<in> set bs" "unat b = 10"
    by auto
  from b(2) have "b = 10" by (simp add: word_unat_eq_iff)
  with b(1) assms show False by simp
qed

lemma relay_text:
  assumes "10 \<notin> set (butlast line)"
  shows "rstrip_newline (decode_replace line) = decode_replace (chomp line)"
proof (cases line rule: rev_cases)
  case Nil
  then show ?thesis by (simp add: chomp_def rstrip_newline_def)
next
  case (snoc body x)
  with assms have body: "10 \<notin> set body" by simp
  show ?thesis
  proof (cases "x = 10")
    case True
    have "decode_replace (body @ [10]) = decode_replace body @ [unat (10::8 word)]"
      by (rule decode_replace_snoc_ascii) simp
    then have "rstrip_newline (decode_replace (body @ [10])) = decode_replace body"
      using decode_replace_no_newline[OF body]
      by (simp add: rstrip_newline_snoc rstrip_newline_keep)
    then show ?thesis using snoc True by (simp add: chomp_def)
  next
    case False
    with body have "10 \<notin> set (body @ [x])" by simp
    from decode_replace_no_newline[OF this]
    have "rstrip_newline (decode_replace (body @ [x])) = decode_replace (body @ [x])"
      by (rule rstrip_newline_keep)
    then show ?thesis using snoc False by (simp add: chomp_def)
  qed
qed

text \<open>
  Claim C7, amended: when the first \<open>n\<close> reads of a stream give lines and the next read
  gives the end of the stream or raises, the relay returns, having sent for each of the \<open>n\<close>
  lines, in order, one \<open>log\<close> notification whose message is \<open>[label]\<close>, a space, and the line
  without its trailing newline, decoded with replacement, and nothing else; it returns
  normally when that next read is the end of the stream, and with the exception of the read
  when it raises. The decoding is total: no byte of a line makes the relay fail.
\<close>

theorem stream_process_output_logs:
  assumes "\<forall>i<n. is_readline (st i)" and "\<not> is_line (st n)"
  shows "stream_process_output ws st 0 prefix =
           Some (ws @ map (\<lambda>i. \<lparr>kind = Log,
                   message = ustr ''['' @ prefix @ ustr ''] '' @
                             decode_replace (chomp (projr (st i))),
                   returncode = None\<rparr>) [0..<n],
                 case st n of Inl e \<Rightarrow> Inl e | Inr _ \<Rightarrow> Inr ())"
proof -
  have lines: "\<forall>i<n. is_line (st i)"
    using assms(1) by (auto simp: is_readline_def is_line_def split: sum.splits)
  have "rstrip_newline (decode_replace (projr (st i))) = decode_replace (chomp (projr (st i)))"
    if "i < n" for i
  proof -
    from that assms(1) have "is_readline (st i)" by simp
    then have "10 \<notin> set (butlast (projr (st i)))"
      by (cases "st i") (simp_all add: is_readline_def)
    then show ?thesis by (rule relay_text)
  qed
  then have "map (\<lambda>i. \<lparr>kind = Log,
                   message = ustr ''['' @ prefix @ ustr ''] '' @
                             rstrip_newline (decode_replace (projr (st i))),
                   returncode = None\<rparr>) [0..<n] =
             map (\<lambda>i. \<lparr>kind = Log,
                   message = ustr ''['' @ prefix @ ustr ''] '' @
                             decode_replace (chomp (projr (st i))),
                   returncode = None\<rparr>) [0..<n]"
    by simp
  with relay_general[OF assms(2) lines, of 0 ws prefix] show ?thesis
    by simp
qed

text \<open>The relay on the example's standard output: two log lines, the ill-formed bytes replaced
  by U+FFFD, and a normal return.\<close>

theorem stream_process_output_logs_witness:
  "stream_process_output [] example_stdout 0 (ustr ''stdout'') =
     Some ([\<lparr>kind = Log, message = ustr ''[stdout] ok'' @ [65533], returncode = None\<rparr>,
            \<lparr>kind = Log, message = ustr ''[stdout] '' @ [65533], returncode = None\<rparr>], Inr ())"
proof -
  have r: "\<forall>i<2. is_readline (example_stdout i)"
    using example_stdout_readlines by (simp add: less_Suc_eq numeral_2_eq_2)
  have e: "\<not> is_line (example_stdout 2)"
    by (simp add: example_stdout_reads is_line_def)
  have u: "[0..<2] = [0, Suc 0]"
    by (simp add: upt_rec)
  from stream_process_output_logs[OF r e, of "[]" "ustr ''stdout''"]
  show ?thesis
    unfolding u by (simp add: example_stdout_reads example_chomped ustr_def)
qed

text \<open>
  Claim C7 as stated fails: a process writes a line of 70000 letters \<open>a\<close> and then the line
  \<open>ok\<close>. The first \<open>readline\<close> raises \<open>ValueError\<close>, so that the relay sends no notification,
  neither for that line nor for the one after it, and does not end normally.
\<close>

theorem stream_process_output_limit_counterexample:
  "stream_process_output []
     (readline_stream [replicate 70000 97 @ [10], [111, 107, 10]]) 0 (ustr ''stdout'') =
   Some ([], Inl ValueError)"
proof -
  have "chomp (replicate 70000 97 @ [10]) = replicate 70000 97"
    by (simp add: chomp_def)
  then have "readline_stream [replicate 70000 97 @ [10], [111, 107, 10]] 0 = Inl ValueError"
    by (simp add: readline_stream_def readline_limit_def)
  then show ?thesis
    by (subst stream_process_output.simps) (simp add: relay_iter_def)
qed

section \<open>Properties of a running invocation\<close>

lemma snoc_in_shuffles_left: "zs \<in> shuffles xs ys \<Longrightarrow> zs @ [x] \<in> shuffles (xs @ [x]) ys"
proof (induction zs arbitrary: xs ys)
  case Nil
  then show ?case by simp
next
  case (Cons z zs)
  from Cons.prems consider
      (left) "xs \<noteq> []" "hd xs = z" "zs \<in> shuffles (tl xs) ys"
    | (right) "ys \<noteq> []" "hd ys = z" "zs \<in> shuffles xs (tl ys)"
    by (auto simp: Cons_in_shuffles_iff)
  then show ?case
  proof cases
    case left
    from Cons.IH[OF left(3)] left(1,2) show ?thesis
      by (simp add: Cons_in_shuffles_iff)
  next
    case right
    from Cons.IH[OF right(3)] right(1,2) show ?thesis
      by (simp add: Cons_in_shuffles_iff)
  qed
qed

lemma snoc_in_shuffles_right: "zs \<in> shuffles xs ys \<Longrightarrow> zs @ [y] \<in> shuffles xs (ys @ [y])"
  using snoc_in_shuffles_left[of zs ys xs y] by (simp add: shuffles_commutes)

lemma runner_inv_start: "runner_inv out err (start_runner out err) []"
  by (simp add: runner_inv_def start_runner_def relay_logs_def)

lemma relay_iter_progress:
  assumes "progress st (Reading k) n" and "relay_iter (ws @ zs) st k prefix = (ws', t)"
  shows "(\<exists>x. progress st t (Suc n) \<and> ws' = ws @ zs @ [x] \<and>
              relay_logs prefix st (Suc n) = relay_logs prefix st n @ [x]) \<or>
         (progress st t n \<and> ws' = ws @ zs)"
proof (cases "st k")
  case (Inl x)
  then show ?thesis using assms by (auto simp: relay_iter_def)
next
  case (Inr line)
  then show ?thesis using assms
    by (cases "line = []")
       (auto simp: relay_iter_def relay_logs_def send_def is_line_def less_Suc_eq)
qed

lemma runner_inv_relay_out:
  assumes "runner_inv out err r zs" and "t_out r = Reading k"
    and "relay_iter (ws @ zs) out k (ustr ''stdout'') = (ws', t)"
  shows "\<exists>zs'. ws' = ws @ zs' \<and> runner_inv out err (r\<lparr>t_out := t\<rparr>) zs'"
proof -
  from assms(1,2) obtain n m where nm: "progress out (Reading k) n" "progress err (t_err r) m"
      "zs \<in> shuffles (relay_logs (ustr ''stdout'') out n) (relay_logs (ustr ''stderr'') err m)"
    and rest: "stdout r = out" "stderr r = err" "main r = WaitProc \<or> (\<exists>rc. main r = AwaitOut rc \<and> exited r = Some rc)"
    by (auto simp: runner_inv_def split: main_pc.splits)
  from relay_iter_progress[OF nm(1) assms(3)] show ?thesis
  proof
    assume "\<exists>x. progress out t (Suc n) \<and> ws' = ws @ zs @ [x] \<and>
              relay_logs (ustr ''stdout'') out (Suc n) = relay_logs (ustr ''stdout'') out n @ [x]"
    then obtain x where x: "progress out t (Suc n)" "ws' = ws @ zs @ [x]"
        "relay_logs (ustr ''stdout'') out (Suc n) = relay_logs (ustr ''stdout'') out n @ [x]" by blast
    have "zs @ [x] \<in> shuffles (relay_logs (ustr ''stdout'') out (Suc n)) (relay_logs (ustr ''stderr'') err m)"
      unfolding x(3) using nm(3) by (rule snoc_in_shuffles_left)
    then show ?thesis using x(1,2) nm(2) rest
      by (intro exI[of _ "zs @ [x]"]) (auto simp: runner_inv_def)
  next
    assume "progress out t n \<and> ws' = ws @ zs"
    then show ?thesis using nm rest
      by (intro exI[of _ zs]) (auto simp: runner_inv_def)
  qed
qed

lemma runner_inv_relay_err:
  assumes "runner_inv out err r zs" and "t_err r = Reading k"
    and "relay_iter (ws @ zs) err k (ustr ''stderr'') = (ws', t)"
  shows "\<exists>zs'. ws' = ws @ zs' \<and> runner_inv out err (r\<lparr>t_err := t\<rparr>) zs'"
proof -
  from assms(1,2) obtain n m where nm: "progress out (t_out r) n" "progress err (Reading k) m"
      "zs \<in> shuffles (relay_logs (ustr ''stdout'') out n) (relay_logs (ustr ''stderr'') err m)"
    and rest: "stdout r = out" "stderr r = err"
      "case main r of WaitProc \<Rightarrow> True | AwaitOut rc \<Rightarrow> exited r = Some rc
         | AwaitErr rc \<Rightarrow> exited r = Some rc \<and> t_out r = Finished"
    by (auto simp: runner_inv_def)
  from relay_iter_progress[OF nm(2) assms(3)] show ?thesis
  proof
    assume "\<exists>x. progress err t (Suc m) \<and> ws' = ws @ zs @ [x] \<and>
              relay_logs (ustr ''stderr'') err (Suc m) = relay_logs (ustr ''stderr'') err m @ [x]"
    then obtain x where x: "progress err t (Suc m)" "ws' = ws @ zs @ [x]"
        "relay_logs (ustr ''stderr'') err (Suc m) = relay_logs (ustr ''stderr'') err m @ [x]" by blast
    have "zs @ [x] \<in> shuffles (relay_logs (ustr ''stdout'') out n) (relay_logs (ustr ''stderr'') err (Suc m))"
      unfolding x(3) using nm(3) by (rule snoc_in_shuffles_right)
    then show ?thesis using x(1,2) nm(1) rest
      by (intro exI[of _ "zs @ [x]"]) (auto simp: runner_inv_def split: main_pc.splits)
  next
    assume "progress err t m \<and> ws' = ws @ zs"
    then show ?thesis using nm rest
      by (intro exI[of _ zs]) (auto simp: runner_inv_def split: main_pc.splits)
  qed
qed

lemma runner_inv_step:
  assumes "runner_inv out err r zs" and "run_adb_intent_step e (ws @ zs) r = Some (ws', res)"
  shows "case res of
           Continue r' \<Rightarrow>
             (\<exists>zs'. ws' = ws @ zs' \<and> runner_inv out err r' zs') \<and>
             (exited r' = exited r \<or> (\<exists>rc. e = Exit rc \<and> exited r' = Some rc))
         | Returned \<Rightarrow>
             (\<exists>n m rc. out n = Inr [] \<and> (\<forall>i<n. is_line (out i)) \<and>
                       err m = Inr [] \<and> (\<forall>i<m. is_line (err i)) \<and>
                       zs \<in> shuffles (relay_logs (ustr ''stdout'') out n)
                                       (relay_logs (ustr ''stderr'') err m) \<and>
                       exited r = Some rc \<and> ws' = ws @ zs @ [done_notification rc])
         | Raised x \<Rightarrow> ws' = ws @ zs"
proof (cases e)
  case RelayOut
  with assms(2) obtain k t where k: "t_out r = Reading k"
      "relay_iter (ws @ zs) (stdout r) k (ustr ''stdout'') = (ws', t)" "res = Continue (r\<lparr>t_out := t\<rparr>)"
    by (auto simp: run_adb_intent_step_def split: task.splits prod.splits)
  moreover have "stdout r = out" using assms(1) by (simp add: runner_inv_def)
  ultimately show ?thesis
    using runner_inv_relay_out[OF assms(1), of k ws ws' t] by simp
next
  case RelayErr
  with assms(2) obtain k t where k: "t_err r = Reading k"
      "relay_iter (ws @ zs) (stderr r) k (ustr ''stderr'') = (ws', t)" "res = Continue (r\<lparr>t_err := t\<rparr>)"
    by (auto simp: run_adb_intent_step_def split: task.splits prod.splits)
  moreover have "stderr r = err" using assms(1) by (simp add: runner_inv_def)
  ultimately show ?thesis
    using runner_inv_relay_err[OF assms(1), of k ws ws' t] by simp
next
  case (Exit rc)
  with assms show ?thesis
    by (auto simp: run_adb_intent_step_def runner_inv_def split: option.splits main_pc.splits)
       blast+
next
  case Main
  with assms show ?thesis
    by (auto simp: run_adb_intent_step_def runner_inv_def send_def done_notification_def
          split: option.splits main_pc.splits task.splits)
       blast+
qed


lemma run_adb_intent_run_returned:
  assumes "runner_inv out err r zs" and "run_adb_intent_run es (ws @ zs) r = Some (ws', Returned)"
  shows "\<exists>n m rc zs'. out n = Inr [] \<and> (\<forall>i<n. is_line (out i)) \<and>
            err m = Inr [] \<and> (\<forall>i<m. is_line (err i)) \<and>
            zs' \<in> shuffles (relay_logs (ustr ''stdout'') out n) (relay_logs (ustr ''stderr'') err m) \<and>
            (exited r = Some rc \<or> Exit rc \<in> set es) \<and>
            ws' = ws @ zs' @ [done_notification rc]"
  using assms
proof (induction es arbitrary: r zs)
  case Nil
  then show ?case by simp
next
  case (Cons e es)
  from Cons.prems(2) obtain ws1 res1 where st: "run_adb_intent_step e (ws @ zs) r = Some (ws1, res1)"
    by (auto split: option.splits)
  note inv = runner_inv_step[OF Cons.prems(1) st]
  show ?case
  proof (cases res1)
    case (Continue r1)
    with inv obtain zs1 where z: "ws1 = ws @ zs1" "runner_inv out err r1 zs1"
      and ex: "exited r1 = exited r \<or> (\<exists>rc. e = Exit rc \<and> exited r1 = Some rc)"
      by auto
    from Cons.prems(2) st Continue z have "run_adb_intent_run es (ws @ zs1) r1 = Some (ws', Returned)"
      by simp
    from Cons.IH[OF z(2) this] ex show ?thesis
      by (elim exE conjE) (rule exI conjI | assumption | force)+
  next
    case Returned
    with Cons.prems(2) st have "es = []" "ws1 = ws'" by (auto split: if_splits)
    with inv Returned show ?thesis by auto
  next
    case (Raised x)
    with Cons.prems(2) st show ?thesis by (auto split: if_splits)
  qed
qed

text \<open>
  Claim C3: under every schedule of an invocation whose process has started, when the
  coroutine returns, both streams have been read to their end, the process has exited with
  some code \<open>rc\<close>, and what the invocation has sent is an interleaving of all the log lines
  of the two relays followed by one \<open>done\<close> notification, which carries \<open>rc\<close> in its message
  and in its \<open>returncode\<close>. The \<open>done\<close> is the last notification: after the return no event of
  the invocation is possible.
\<close>

theorem done_after_relays_drained:
  assumes "run_adb_intent_run es ws (start_runner out err) = Some (ws', Returned)"
  shows "\<exists>n m rc zs. out n = Inr [] \<and> (\<forall>i<n. is_line (out i)) \<and>
            err m = Inr [] \<and> (\<forall>i<m. is_line (err i)) \<and>
            zs \<in> shuffles (relay_logs (ustr ''stdout'') out n) (relay_logs (ustr ''stderr'') err m) \<and>
            Exit rc \<in> set es \<and>
            ws' = ws @ zs @ [done_notification rc]"
  using run_adb_intent_run_returned[OF runner_inv_start, of es ws out err ws'] assms
  by (simp add: start_runner_def)

text \<open>One schedule of the example process, and what the theorem gives for it.\<close>

theorem done_after_relays_drained_witness:
  "run_adb_intent_run [RelayOut, RelayErr, Exit (- 9), RelayOut, Main, RelayErr, RelayOut, Main, Main] []
     (start_runner example_stdout example_stderr) =
   Some ([\<lparr>kind = Log, message = ustr ''[stdout] ok'' @ [65533], returncode = None\<rparr>,
          \<lparr>kind = Log, message = ustr ''[stderr] w'', returncode = None\<rparr>,
          \<lparr>kind = Log, message = ustr ''[stdout] '' @ [65533], returncode = None\<rparr>,
          done_notification (- 9)], Returned) \<and>
   (\<exists>n m rc zs. example_stdout n = Inr [] \<and> (\<forall>i<n. is_line (example_stdout i)) \<and>
       example_stderr m = Inr [] \<and> (\<forall>i<m. is_line (example_stderr i)) \<and>
       zs \<in> shuffles (relay_logs (ustr ''stdout'') example_stdout n)
                       (relay_logs (ustr ''stderr'') example_stderr m) \<and>
       Exit rc \<in> set [RelayOut, RelayErr, Exit (- 9), RelayOut, Main, RelayErr, RelayOut, Main, Main] \<and>
       [\<lparr>kind = Log, message = ustr ''[stdout] ok'' @ [65533], returncode = None\<rparr>,
        \<lparr>kind = Log, message = ustr ''[stderr] w'', returncode = None\<rparr>,
        \<lparr>kind = Log, message = ustr ''[stdout] '' @ [65533], returncode = None\<rparr>,
        done_notification (- 9)] = [] @ zs @ [done_notification rc])"
proof -
  have e: "run_adb_intent_run [RelayOut, RelayErr, Exit (- 9), RelayOut, Main, RelayErr, RelayOut, Main, Main] []
     (start_runner example_stdout example_stderr) =
   Some ([\<lparr>kind = Log, message = ustr ''[stdout] ok'' @ [65533], returncode = None\<rparr>,
          \<lparr>kind = Log, message = ustr ''[stderr] w'', returncode = None\<rparr>,
          \<lparr>kind = Log, message = ustr ''[stdout] '' @ [65533], returncode = None\<rparr>,
          done_notification (- 9)], Returned)"
    using example_schedule[of "[]"] unfolding append_Nil .
  show ?thesis
    by (rule conjI[OF e done_after_relays_drained[OF e]])
qed

section \<open>Properties of the session\<close>

lemma strip_whitespace:
  assumes "\<forall>c \<in> set v. isspace c"
  shows "strip v = []"
proof -
  have h: "dropWhile isspace v = []"
    using assms by simp
  show ?thesis
    unfolding strip_def h by simp
qed

lemma strip_Nil: "strip [] = []"
  by (simp add: strip_def)

lemma urlparse_empty: "urlparse lib [] = Inr \<lparr>scheme = [], netloc = [], path = [], params = [], query = [], fragment = []\<rparr>"
  by (simp add: urlparse_def urlsplit_def partition_at_def checknetloc_def ustr_def)

lemma empty_url_invalid: "\<not> is_valid_youtube_url lib []"
  by (simp add: is_valid_youtube_url_def urlparse_empty ustr_def)

text \<open>
  Claim C4: when the process creation raises \<open>FileNotFoundError\<close>, the session sends one
  \<open>error\<close> notification with the message that adb was not found and that the PATH should be
  checked, and the handler is back at the head of its loop: no relay, no \<open>done\<close>, no process
  started, nothing ended. Any other exception of the creation gives one \<open>error\<close>
  notification that holds the exception's \<open>repr\<close>, in the same way.
\<close>

theorem spawn_failure:
  assumes "pc s = Starting cmd"
  shows "websocket_handler_step lib (Spawn FileNotFoundError) s =
           Some (s\<lparr>pc := Idle,
                   sent := sent s @ [\<lparr>kind = Error,
                     message = ustr ''adb was not found. Please check your PATH.'',
                     returncode = None\<rparr>]\<rparr>) \<and>
         websocket_handler_step lib (Spawn (StartFailed detail)) s =
           Some (s\<lparr>pc := Idle,
                   sent := sent s @ [\<lparr>kind = Error,
                     message = ustr ''Failed to start process: '' @ detail,
                     returncode = None\<rparr>]\<rparr>)"
  using assms by (simp add: websocket_handler_step_def run_adb_intent_spawned_def send_def)

text \<open>Both failures of the process creation, from the example session that waits for it.\<close>

theorem spawn_failure_witness:
  "websocket_handler_step example_lib (Spawn FileNotFoundError) example_starting =
     Some (example_starting\<lparr>pc := Idle,
             sent := sent example_starting @ [\<lparr>kind = Error,
               message = ustr ''adb was not found. Please check your PATH.'',
               returncode = None\<rparr>]\<rparr>) \<and>
   websocket_handler_step example_lib (Spawn (StartFailed (ustr ''PermissionError(13)''))) example_starting =
     Some (example_starting\<lparr>pc := Idle,
             sent := sent example_starting @ [\<lparr>kind = Error,
               message = ustr ''Failed to start process: '' @ ustr ''PermissionError(13)'',
               returncode = None\<rparr>]\<rparr>)"
proof -
  have "pc example_starting = Starting example_cmd"
    by (simp add: example_starting_def)
  from spawn_failure[OF this] show ?thesis .
qed

text \<open>
  Claim C5, amended: a text frame on which \<open>json.loads\<close> raises \<open>JSONDecodeError\<close> makes the
  session send one \<open>error\<close> notification with the format hint and nothing else: the frame
  leaves the inbox and no other part of the state changes. The handler stays at the head of
  its loop, takes the next message when there is one, and further messages can arrive.
\<close>

theorem malformed_frame:
  assumes "pc s = Idle" and "inbox s = TEXT d # rest" and "json_loads lib d = Inl JSONDecodeError"
  shows "\<exists>s'. websocket_handler_step lib Dispatch s = Some s' \<and>
           s' = s\<lparr>inbox := rest,
                  sent := sent s @ [\<lparr>kind = Error,
                    message = ustr ''Please send data in JSON format. Example: {\"type\":\"open\",\"url\":\"...\"}'',
                    returncode = None\<rparr>]\<rparr> \<and>
           pc s' = Idle \<and>
           (rest \<noteq> [] \<longrightarrow> websocket_handler_step lib Dispatch s' \<noteq> None) \<and>
           websocket_handler_step lib (Arrive m) s' \<noteq> None"
  using assms
  by (cases rest) (auto simp add: websocket_handler_step_def on_message_def send_def split: prod.splits)

text \<open>The frame \<open>garbage\<close>, with a ping behind it in the inbox: one error, and the ping can be
  taken next.\<close>

theorem malformed_frame_witness:
  "\<exists>s'. websocket_handler_step example_lib Dispatch
           (websocket_handler_init\<lparr>inbox := [TEXT (ustr ''garbage''), TEXT example_ping]\<rparr>) = Some s' \<and>
        s' = websocket_handler_init\<lparr>inbox := [TEXT (ustr ''garbage''), TEXT example_ping]\<rparr>
               \<lparr>inbox := [TEXT example_ping],
                sent := sent (websocket_handler_init\<lparr>inbox := [TEXT (ustr ''garbage''), TEXT example_ping]\<rparr>) @
                  [\<lparr>kind = Error,
                    message = ustr ''Please send data in JSON format. Example: {\"type\":\"open\",\"url\":\"...\"}'',
                    returncode = None\<rparr>]\<rparr> \<and>
        pc s' = Idle \<and>
        websocket_handler_step example_lib Dispatch s' \<noteq> None \<and>
        websocket_handler_step example_lib (Arrive (TEXT example_ping)) s' \<noteq> None"
proof -
  have "pc (websocket_handler_init\<lparr>inbox := [TEXT (ustr ''garbage''), TEXT example_ping]\<rparr>) = Idle"
    by (simp add: websocket_handler_init_def)
  moreover have "inbox (websocket_handler_init\<lparr>inbox := [TEXT (ustr ''garbage''), TEXT example_ping]\<rparr>) =
          TEXT (ustr ''garbage'') # [TEXT example_ping]"
    by simp
  moreover have "json_loads example_lib (ustr ''garbage'') = Inl JSONDecodeError"
    by (rule example_loads)
  ultimately obtain s' where
    "websocket_handler_step example_lib Dispatch
           (websocket_handler_init\<lparr>inbox := [TEXT (ustr ''garbage''), TEXT example_ping]\<rparr>) = Some s'"
    "s' = websocket_handler_init\<lparr>inbox := [TEXT (ustr ''garbage''), TEXT example_ping]\<rparr>
               \<lparr>inbox := [TEXT example_ping],
                sent := sent (websocket_handler_init\<lparr>inbox := [TEXT (ustr ''garbage''), TEXT example_ping]\<rparr>) @
                  [\<lparr>kind = Error,
                    message = ustr ''Please send data in JSON format. Example: {\"type\":\"open\",\"url\":\"...\"}'',
                    returncode = None\<rparr>]\<rparr>"
    "pc s' = Idle"
    "[TEXT example_ping] \<noteq> [] \<longrightarrow> websocket_handler_step example_lib Dispatch s' \<noteq> None"
    "websocket_handler_step example_lib (Arrive (TEXT example_ping)) s' \<noteq> None"
    using malformed_frame[of _ "ustr ''garbage''" "[TEXT example_ping]" example_lib "TEXT example_ping"]
    by blast
  then show ?thesis by blast
qed

text \<open>
  Outside claim C5: a frame that decodes, to a JSON value that is not an object. There
  \<open>json.loads\<close> raises nothing, \<open>data.get\<close> raises \<open>AttributeError\<close>, nothing catches it, and
  the handler ends without a notification.
\<close>

text \<open>
  Claim C5 as stated fails: the frame of 1200 opening brackets is not JSON, and \<open>json.loads\<close>
  raises \<open>RecursionError\<close> on it, which is not a \<open>JSONDecodeError\<close>. The handler catches only
  the latter: no notification is sent, the exception leaves the handler, and no later
  message is taken.
\<close>

theorem malformed_frame_recursion_counterexample:
  "json_loads example_lib example_deep = Inl RecursionError \<and>
   websocket_handler_step example_lib Dispatch
     (websocket_handler_init\<lparr>inbox := [TEXT example_deep, TEXT example_ping]\<rparr>) =
     Some (websocket_handler_init\<lparr>inbox := [TEXT example_ping], pc := Crashed RecursionError\<rparr>) \<and>
   sent (websocket_handler_init\<lparr>inbox := [TEXT example_ping], pc := Crashed RecursionError\<rparr>) =
     sent (websocket_handler_init\<lparr>inbox := [TEXT example_deep, TEXT example_ping]\<rparr>) \<and>
   websocket_handler_step example_lib Dispatch
     (websocket_handler_init\<lparr>inbox := [TEXT example_ping], pc := Crashed RecursionError\<rparr>) = None \<and>
   websocket_handler_step example_lib (Arrive (TEXT example_ping))
     (websocket_handler_init\<lparr>inbox := [TEXT example_ping], pc := Crashed RecursionError\<rparr>) = None"
  by (simp add: websocket_handler_step_def websocket_handler_init_def on_message_def
        example_deep_loads)

lemma non_object_frame:
  assumes "pc s = Idle" and "inbox s = TEXT d # rest" and "json_loads lib d = Inr v"
    and "\<forall>kvs. v \<noteq> JDict kvs"
  shows "websocket_handler_step lib Dispatch s =
           Some (s\<lparr>inbox := rest, pc := Crashed AttributeError\<rparr>)"
  using assms by (cases v) (simp_all add: websocket_handler_step_def on_message_def)

lemma ping_step:
  assumes "pc s = Idle" and "inbox s = TEXT d # rest" and "json_loads lib d = Inr (JDict kvs)"
    and "dict_get kvs (ustr ''type'') = JStr (ustr ''ping'')"
  shows "websocket_handler_step lib Dispatch s =
           Some (s\<lparr>inbox := rest,
                   sent := sent s @ [\<lparr>kind = Pong, message = ustr ''pong'', returncode = None\<rparr>]\<rparr>)"
  using assms
  by (simp add: websocket_handler_step_def on_message_def send_def ustr_def)

text \<open>
  Claim C8: from the head of the loop, whatever the session has done before, any number of
  \<open>ping\<close> requests taken in turn gives one \<open>pong\<close> notification with message \<open>pong\<close> for each
  of them and changes nothing else; the handler is at the head of its loop after each.
\<close>

theorem pings_yield_pongs:
  assumes "pc s = Idle" and "inbox s = pings @ rest" and "\<forall>m \<in> set pings. is_ping lib m"
  shows "run lib (replicate (length pings) Dispatch) s =
           Some (s\<lparr>inbox := rest,
                   sent := sent s @ replicate (length pings)
                             \<lparr>kind = Pong, message = ustr ''pong'', returncode = None\<rparr>\<rparr>)"
  using assms
proof (induction pings arbitrary: s)
  case Nil
  then show ?case by simp
next
  case (Cons m ms)
  from Cons.prems obtain d kvs where m: "m = TEXT d" "json_loads lib d = Inr (JDict kvs)"
      "dict_get kvs (ustr ''type'') = JStr (ustr ''ping'')"
    by (auto simp: is_ping_def split: ws_msg.splits sum.splits json.splits)
  let ?pong = "\<lparr>kind = Pong, message = ustr ''pong'', returncode = None\<rparr>"
  let ?s1 = "s\<lparr>inbox := ms @ rest, sent := sent s @ [?pong]\<rparr>"
  have st: "websocket_handler_step lib Dispatch s = Some ?s1"
    using ping_step[of s d "ms @ rest" lib kvs] Cons.prems m by simp
  have "run lib (replicate (length ms) Dispatch) ?s1 =
          Some (?s1\<lparr>inbox := rest, sent := sent ?s1 @ replicate (length ms) ?pong\<rparr>)"
    using Cons.prems by (intro Cons.IH) simp_all
  then show ?case
    using st by (simp add: replicate_app_Cons_same)
qed

text \<open>Two pings in the inbox give two pongs.\<close>

theorem pings_yield_pongs_witness:
  "run example_lib (replicate (length [TEXT example_ping, TEXT example_ping]) Dispatch)
     (websocket_handler_init\<lparr>inbox := [TEXT example_ping, TEXT example_ping]\<rparr>) =
   Some (websocket_handler_init\<lparr>inbox := [TEXT example_ping, TEXT example_ping]\<rparr>
           \<lparr>inbox := [],
            sent := sent (websocket_handler_init\<lparr>inbox := [TEXT example_ping, TEXT example_ping]\<rparr>) @
              replicate (length [TEXT example_ping, TEXT example_ping])
                \<lparr>kind = Pong, message = ustr ''pong'', returncode = None\<rparr>\<rparr>)"
proof (rule pings_yield_pongs)
  show "pc (websocket_handler_init\<lparr>inbox := [TEXT example_ping, TEXT example_ping]\<rparr>) = Idle"
    by (simp add: websocket_handler_init_def)
  show "inbox (websocket_handler_init\<lparr>inbox := [TEXT example_ping, TEXT example_ping]\<rparr>) =
          [TEXT example_ping, TEXT example_ping] @ []"
    by simp
  show "\<forall>m \<in> set [TEXT example_ping, TEXT example_ping]. is_ping example_lib m"
    by (simp add: is_ping_def example_loads example_gets)
qed

text \<open>
  Claim C9: an \<open>open\<close> request whose \<open>url\<close> is absent, null, or a string of whitespace only
  makes the session send the log notification \<open>Received URL: \<close> with the empty URL and then
  one validation error; the handler is back at the head of its loop, no exception, no
  process.
\<close>

theorem open_without_url:
  assumes "pc s = Idle" and "inbox s = TEXT d # rest" and "json_loads lib d = Inr (JDict kvs)"
    and "dict_get kvs (ustr ''type'') = JStr (ustr ''open'')"
    and "map_of kvs (ustr ''url'') = None \<or> map_of kvs (ustr ''url'') = Some JNull \<or>
         (\<exists>v. map_of kvs (ustr ''url'') = Some (JStr v) \<and> (\<forall>c \<in> set v. isspace c))"
  shows "websocket_handler_step lib Dispatch s =
           Some (s\<lparr>inbox := rest,
                   sent := sent s @
                     [\<lparr>kind = Log, message = ustr ''Received URL: '', returncode = None\<rparr>,
                      \<lparr>kind = Error,
                        message = ustr ''The URL is invalid as a YouTube URL (check allowed domains/formats).'',
                        returncode = None\<rparr>]\<rparr>)"
proof -
  have "\<exists>v. (if truthy (dict_get kvs (ustr ''url'')) then dict_get kvs (ustr ''url'') else JStr []) = JStr v
          \<and> strip v = []"
    using assms(5) by (auto simp: dict_get_def strip_whitespace strip_Nil)
  then obtain v where v: "(if truthy (dict_get kvs (ustr ''url'')) then dict_get kvs (ustr ''url'') else JStr []) = JStr v"
      "strip v = []" by blast
  show ?thesis
    using assms(1-4) v
    by (simp add: websocket_handler_step_def on_message_def send_def empty_url_invalid Let_def
          del: truthy.simps)
qed

text \<open>An \<open>open\<close> request whose \<open>url\<close> is null.\<close>

theorem open_without_url_witness:
  "websocket_handler_step example_lib Dispatch
     (websocket_handler_init\<lparr>inbox := [TEXT example_open_null]\<rparr>) =
   Some (websocket_handler_init\<lparr>inbox := [TEXT example_open_null]\<rparr>
           \<lparr>inbox := [],
            sent := sent (websocket_handler_init\<lparr>inbox := [TEXT example_open_null]\<rparr>) @
              [\<lparr>kind = Log, message = ustr ''Received URL: '', returncode = None\<rparr>,
               \<lparr>kind = Error,
                 message = ustr ''The URL is invalid as a YouTube URL (check allowed domains/formats).'',
                 returncode = None\<rparr>]\<rparr>)"
proof (rule open_without_url)
  show "pc (websocket_handler_init\<lparr>inbox := [TEXT example_open_null]\<rparr>) = Idle"
    by (simp add: websocket_handler_init_def)
  show "inbox (websocket_handler_init\<lparr>inbox := [TEXT example_open_null]\<rparr>) =
          TEXT example_open_null # []"
    by simp
  show "json_loads example_lib example_open_null =
          Inr (JDict [(ustr ''type'', JStr (ustr ''open'')), (ustr ''url'', JNull)])"
    by (rule example_loads)
  show "dict_get [(ustr ''type'', JStr (ustr ''open'')), (ustr ''url'', JNull)] (ustr ''type'') =
          JStr (ustr ''open'')"
    by (rule example_gets)
  show "map_of [(ustr ''type'', JStr (ustr ''open'')), (ustr ''url'', JNull)] (ustr ''url'') = None \<or>
        map_of [(ustr ''type'', JStr (ustr ''open'')), (ustr ''url'', JNull)] (ustr ''url'') = Some JNull \<or>
        (\<exists>v. map_of [(ustr ''type'', JStr (ustr ''open'')), (ustr ''url'', JNull)] (ustr ''url'') =
               Some (JStr v) \<and> (\<forall>c \<in> set v. isspace c))"
    by (simp add: ustr_def)
qed

lemma run_adb_intent_cmd_explicit:
  "run_adb_intent_cmd url =
     [ustr ''adb'', ustr ''exec-out'',
      ustr ''am start -a android.intent.action.VIEW -d '' @ shlex_quote url @
        ustr '' -p com.google.android.youtube.tv'']"
  by (simp add: run_adb_intent_cmd_def shlex_join_def shlex_quote_def shlex_safe_def ustr_def
        ascii_isalpha_def ascii_isdigit_def)

lemma open_enters_runner:
  assumes "pc s = Idle" and "websocket_handler_step lib Dispatch s = Some s'"
    and "pc s' = Starting cmd"
  shows "\<exists>d rest kvs v.
           inbox s = TEXT d # rest \<and> json_loads lib d = Inr (JDict kvs) \<and>
           dict_get kvs (ustr ''type'') = JStr (ustr ''open'') \<and>
           dict_get kvs (ustr ''url'') = JStr v \<and>
           is_valid_youtube_url lib (strip v) \<and>
           cmd = run_adb_intent_cmd (strip v) \<and>
           sent s' = sent s @
             [\<lparr>kind = Log, message = ustr ''Received URL: '' @ strip v, returncode = None\<rparr>,
              \<lparr>kind = Log,
                message = ustr ''Command executed: '' @ json_dumps_strs cmd,
                returncode = None\<rparr>] \<and>
           (\<forall>out err s''. websocket_handler_step lib (Spawn (Started out err)) s' = Some s'' \<longrightarrow>
              started s'' = started s @ [cmd])"
  using assms
  by (auto simp add: websocket_handler_step_def on_message_def send_def Let_def
        run_adb_intent_begin_def run_adb_intent_spawned_def strip_Nil empty_url_invalid
      split: list.splits ws_msg.splits sum.splits json.splits if_splits prod.splits)

text \<open>
  Claim C10: whenever taking a message leads the handler into \<open>run_adb_intent\<close>, the message
  is an \<open>open\<close> request whose \<open>url\<close> is a string \<open>v\<close>; \<open>strip v\<close> is the string echoed in the
  \<open>Received URL\<close> notification and the string that passed the validator; the argument vector
  that goes to the process creation is \<open>adb\<close>, \<open>exec-out\<close> and the joined string with
  \<open>strip v\<close>, shell-quoted and not changed otherwise, between \<open>-d\<close> and \<open>-p\<close>; and when the
  process starts, that vector is the one recorded as started.
\<close>

theorem open_hands_trimmed_url:
  assumes "pc s = Idle" and "websocket_handler_step lib Dispatch s = Some s'"
    and "pc s' = Starting cmd"
  shows "\<exists>d rest kvs v.
           inbox s = TEXT d # rest \<and> json_loads lib d = Inr (JDict kvs) \<and>
           dict_get kvs (ustr ''type'') = JStr (ustr ''open'') \<and>
           dict_get kvs (ustr ''url'') = JStr v \<and>
           is_valid_youtube_url lib (strip v) \<and>
           cmd = [ustr ''adb'', ustr ''exec-out'',
                  ustr ''am start -a android.intent.action.VIEW -d '' @ shlex_quote (strip v) @
                    ustr '' -p com.google.android.youtube.tv''] \<and>
           sent s' = sent s @
             [\<lparr>kind = Log, message = ustr ''Received URL: '' @ strip v, returncode = None\<rparr>,
              \<lparr>kind = Log,
                message = ustr ''Command executed: '' @ json_dumps_strs cmd,
                returncode = None\<rparr>] \<and>
           (\<forall>out err s''. websocket_handler_step lib (Spawn (Started out err)) s' = Some s'' \<longrightarrow>
              started s'' = started s @ [cmd])"
  using open_enters_runner[OF assms] unfolding run_adb_intent_cmd_explicit .

text \<open>The example request, whose \<open>url\<close> has a space at each end: the trimmed URL is echoed,
  validated and put into the argument vector.\<close>

theorem open_hands_trimmed_url_witness:
  "\<exists>d rest kvs v.
     inbox (websocket_handler_init\<lparr>inbox := [TEXT example_open]\<rparr>) = TEXT d # rest \<and>
     json_loads example_lib d = Inr (JDict kvs) \<and>
     dict_get kvs (ustr ''type'') = JStr (ustr ''open'') \<and>
     dict_get kvs (ustr ''url'') = JStr v \<and>
     is_valid_youtube_url example_lib (strip v) \<and>
     example_cmd = [ustr ''adb'', ustr ''exec-out'',
                    ustr ''am start -a android.intent.action.VIEW -d '' @ shlex_quote (strip v) @
                      ustr '' -p com.google.android.youtube.tv''] \<and>
     sent (websocket_handler_init
             \<lparr>inbox := [], pc := Starting example_cmd,
              sent := sent websocket_handler_init @
                [\<lparr>kind = Log, message = ustr ''Received URL: https://youtu.be/dQw4w9WgXcQ'',
                   returncode = None\<rparr>,
                 \<lparr>kind = Log, message = ustr ''Command executed: '' @ json_dumps_strs example_cmd,
                   returncode = None\<rparr>]\<rparr>) =
       sent (websocket_handler_init\<lparr>inbox := [TEXT example_open]\<rparr>) @
         [\<lparr>kind = Log, message = ustr ''Received URL: '' @ strip v, returncode = None\<rparr>,
          \<lparr>kind = Log,
            message = ustr ''Command executed: '' @ json_dumps_strs example_cmd,
            returncode = None\<rparr>] \<and>
     (\<forall>out err s''.
        websocket_handler_step example_lib (Spawn (Started out err))
          (websocket_handler_init
             \<lparr>inbox := [], pc := Starting example_cmd,
              sent := sent websocket_handler_init @
                [\<lparr>kind = Log, message = ustr ''Received URL: https://youtu.be/dQw4w9WgXcQ'',
                   returncode = None\<rparr>,
                 \<lparr>kind = Log, message = ustr ''Command executed: '' @ json_dumps_strs example_cmd,
                   returncode = None\<rparr>]\<rparr>) = Some s'' \<longrightarrow>
        started s'' = started (websocket_handler_init\<lparr>inbox := [TEXT example_open]\<rparr>) @
                        [example_cmd])"
proof (rule open_hands_trimmed_url)
  show "pc (websocket_handler_init\<lparr>inbox := [TEXT example_open]\<rparr>) = Idle"
    by (simp add: websocket_handler_init_def)
  show "websocket_handler_step example_lib Dispatch
          (websocket_handler_init\<lparr>inbox := [TEXT example_open]\<rparr>) =
        Some (websocket_handler_init
             \<lparr>inbox := [], pc := Starting example_cmd,
              sent := sent websocket_handler_init @
                [\<lparr>kind = Log, message = ustr ''Received URL: https://youtu.be/dQw4w9WgXcQ'',
                   returncode = None\<rparr>,
                 \<lparr>kind = Log, message = ustr ''Command executed: '' @ json_dumps_strs example_cmd,
                   returncode = None\<rparr>]\<rparr>)"
    by (simp add: websocket_handler_step_def websocket_handler_init_def on_message_def
          example_loads example_gets example_url run_adb_intent_begin_def send_def example_cmd_def
          Let_def)
       (simp add: ustr_def)
  show "pc (websocket_handler_init
             \<lparr>inbox := [], pc := Starting example_cmd,
              sent := sent websocket_handler_init @
                [\<lparr>kind = Log, message = ustr ''Received URL: https://youtu.be/dQw4w9WgXcQ'',
                   returncode = None\<rparr>,
                 \<lparr>kind = Log, message = ustr ''Command executed: '' @ json_dumps_strs example_cmd,
                   returncode = None\<rparr>]\<rparr>) = Starting example_cmd"
    by simp
qed

lemma relay_iter_appends:
  "relay_iter ws st k prefix = (ws', t) \<Longrightarrow> \<exists>ls. ws' = ws @ ls \<and> (\<forall>n \<in> set ls. kind n = Log)"
  by (auto simp: relay_iter_def send_def split: sum.splits if_splits)

lemma run_adb_intent_step_appends:
  assumes "run_adb_intent_step e ws r = Some (ws', res)"
  shows "case res of
           Continue _ \<Rightarrow> \<exists>ls. ws' = ws @ ls \<and> (\<forall>n \<in> set ls. kind n = Log)
         | Returned \<Rightarrow> \<exists>rc. ws' = ws @ [done_notification rc]
         | Raised _ \<Rightarrow> ws' = ws"
proof (cases e)
  case RelayOut
  with assms show ?thesis
    by (auto simp: run_adb_intent_step_def split: task.splits prod.splits dest: relay_iter_appends)
next
  case RelayErr
  with assms show ?thesis
    by (auto simp: run_adb_intent_step_def split: task.splits prod.splits dest: relay_iter_appends)
next
  case (Exit rc)
  with assms show ?thesis
    by (auto simp: run_adb_intent_step_def split: option.splits)
next
  case Main
  with assms show ?thesis
    by (auto simp: run_adb_intent_step_def send_def done_notification_def
          split: option.splits main_pc.splits task.splits)
qed

lemma count_inv_step:
  assumes "count_inv s" and "websocket_handler_step lib e s = Some s'"
  shows "count_inv s'"
proof (cases e)
  case (Arrive m)
  with assms show ?thesis
    by (auto simp: websocket_handler_step_def count_inv_def is_running_def split: pc.splits)
next
  case Dispatch
  with assms show ?thesis
    by (auto simp: websocket_handler_step_def count_inv_def is_running_def on_message_def Let_def
          split: pc.splits list.splits prod.splits ws_msg.splits sum.splits json.splits if_splits)
next
  case (Spawn r)
  with assms show ?thesis
    by (auto simp: websocket_handler_step_def count_inv_def is_running_def run_adb_intent_spawned_def
          split: pc.splits prod.splits run_result.splits spawn_result.splits)
next
  case (Proc pe)
  with assms show ?thesis
    by (auto simp: websocket_handler_step_def count_inv_def is_running_def
          split: pc.splits prod.splits run_result.splits option.splits)
qed

lemma count_inv_run: "count_inv s \<Longrightarrow> run lib es s = Some s' \<Longrightarrow> count_inv s'"
  by (induction es arbitrary: s) (auto split: option.splits dest: count_inv_step)

lemma count_inv_init: "count_inv websocket_handler_init"
  by (simp add: count_inv_def websocket_handler_init_def is_running_def)

lemma websocket_handler_step_appends:
  assumes "websocket_handler_step lib e s = Some s'"
  shows "\<exists>added. sent s' = sent s @ added"
proof (cases e)
  case (Arrive m)
  with assms show ?thesis
    by (auto simp: websocket_handler_step_def split: pc.splits)
next
  case Dispatch
  with assms show ?thesis
    by (auto simp: websocket_handler_step_def on_message_def Let_def send_def run_adb_intent_begin_def
          split: pc.splits list.splits prod.splits ws_msg.splits sum.splits json.splits if_splits)
next
  case (Spawn r)
  with assms show ?thesis
    by (auto simp: websocket_handler_step_def run_adb_intent_spawned_def send_def
          split: pc.splits prod.splits run_result.splits spawn_result.splits)
next
  case (Proc pe)
  with assms obtain rn ws' res where r: "pc s = Running rn"
      "run_adb_intent_step pe (sent s) rn = Some (ws', res)" "sent s' = ws'"
    by (auto simp: websocket_handler_step_def
          split: pc.splits prod.splits run_result.splits option.splits)
  from run_adb_intent_step_appends[OF r(2)] r(3) show ?thesis
    by (cases res) auto
qed

lemma done_stays_first:
  "Done \<in> kind ` set (takeWhile (\<lambda>n. kind n \<noteq> Pong) new) \<Longrightarrow>
   Done \<in> kind ` set (takeWhile (\<lambda>n. kind n \<noteq> Pong) (new @ added))"
  by (induction new) auto

lemma seq_inv_step:
  assumes "sent s = base @ new" and "seq_inv new (pc s)"
    and "websocket_handler_step lib e s = Some s'"
  shows "\<exists>new'. sent s' = base @ new' \<and> seq_inv new' (pc s')"
proof (cases "Done \<in> kind ` set (takeWhile (\<lambda>n. kind n \<noteq> Pong) new)")
  case True
  from websocket_handler_step_appends[OF assms(3)] obtain added where "sent s' = sent s @ added" ..
  with assms(1) True show ?thesis
    by (intro exI[of _ "new @ added"]) (simp add: seq_inv_def done_stays_first)
next
  case False
  with assms(2) have logs: "\<forall>n \<in> set new. kind n = Log"
    and p: "(\<exists>rn. pc s = Running rn) \<or> (\<exists>x. pc s = Crashed x)"
    by (auto simp: seq_inv_def split: pc.splits)
  from p show ?thesis
  proof
    assume "\<exists>x. pc s = Crashed x"
    with assms(3) show ?thesis
      by (cases e) (auto simp: websocket_handler_step_def)
  next
    assume "\<exists>rn. pc s = Running rn"
    then obtain rn where rn: "pc s = Running rn" ..
    show ?thesis
    proof (cases e)
      case (Arrive m)
      with assms rn show ?thesis
        by (auto simp: websocket_handler_step_def seq_inv_def)
    next
      case Dispatch
      with assms(3) rn show ?thesis by (simp add: websocket_handler_step_def)
    next
      case (Spawn r)
      with assms(3) rn show ?thesis by (simp add: websocket_handler_step_def)
    next
      case (Proc pe)
      with assms(3) rn obtain ws' res where r:
          "run_adb_intent_step pe (sent s) rn = Some (ws', res)" "sent s' = ws'"
          "pc s' = (case res of Continue rn' \<Rightarrow> Running rn' | Returned \<Rightarrow> Idle | Raised x \<Rightarrow> Crashed x)"
        by (auto simp: websocket_handler_step_def split: prod.splits run_result.splits option.splits)
      from run_adb_intent_step_appends[OF r(1)] show ?thesis
      proof (cases res)
        case (Continue rn')
        with run_adb_intent_step_appends[OF r(1)] obtain ls where
          "ws' = sent s @ ls" "\<forall>n \<in> set ls. kind n = Log" by auto
        with r Continue assms(1) logs show ?thesis
          by (intro exI[of _ "new @ ls"]) (auto simp: seq_inv_def)
      next
        case Returned
        with run_adb_intent_step_appends[OF r(1)] obtain rc where
          "ws' = sent s @ [done_notification rc]" by auto
        moreover have "takeWhile (\<lambda>n. kind n \<noteq> Pong) (new @ [done_notification rc]) =
                        new @ [done_notification rc]"
          using logs by (simp add: takeWhile_append2 done_notification_def)
        ultimately show ?thesis using r Returned assms(1)
          by (intro exI[of _ "new @ [done_notification rc]"])
             (simp add: seq_inv_def done_notification_def)
      next
        case (Raised x)
        with run_adb_intent_step_appends[OF r(1)] have "ws' = sent s" by simp
        with r Raised assms(1) logs show ?thesis
          by (intro exI[of _ new]) (simp add: seq_inv_def)
      qed
    qed
  qed
qed

lemma seq_inv_run:
  assumes "sent s = base @ new" and "seq_inv new (pc s)" and "run lib es s = Some s'"
  shows "\<exists>new'. sent s' = base @ new' \<and> seq_inv new' (pc s')"
  using assms
proof (induction es arbitrary: s new)
  case Nil
  then show ?case by auto
next
  case (Cons e es)
  from Cons.prems(3) obtain s1 where s1: "websocket_handler_step lib e s = Some s1"
      "run lib es s1 = Some s'"
    by (auto split: option.splits)
  from seq_inv_step[OF Cons.prems(1,2) s1(1)] obtain new1 where
    "sent s1 = base @ new1" "seq_inv new1 (pc s1)" by blast
  from Cons.IH[OF this s1(2)] show ?case .
qed

lemma seq_inv_pong: "seq_inv new p \<Longrightarrow> pong_after_done new"
  by (auto simp: seq_inv_def pong_after_done_def)

text \<open>
  Claim C6: in every state \<open>s\<close> the session can reach, at most one invocation is in flight,
  and one is exactly when the handler is inside a running invocation; the loop takes no
  message unless the handler is at its head; and if an invocation is running in \<open>s\<close>, then
  in whatever the session sends from \<open>s\<close> on, every \<open>pong\<close> comes after a \<open>done\<close>: a ping that
  arrives during the invocation is answered only after the invocation's \<open>done\<close>.
\<close>

theorem dispatch_is_sequential:
  assumes "run lib es websocket_handler_init = Some s" and "run lib es' s = Some s'"
  shows "active s \<le> 1 \<and> (active s = 1 \<longleftrightarrow> is_running (pc s)) \<and>
         (pc s \<noteq> Idle \<longrightarrow> websocket_handler_step lib Dispatch s = None) \<and>
         (is_running (pc s) \<longrightarrow> (\<exists>new. sent s' = sent s @ new \<and> pong_after_done new))"
proof -
  from count_inv_run[OF count_inv_init assms(1)] have c: "count_inv s" .
  then have 1: "active s \<le> 1 \<and> (active s = 1 \<longleftrightarrow> is_running (pc s))"
    by (auto simp: count_inv_def active_def)
  have 2: "pc s \<noteq> Idle \<longrightarrow> websocket_handler_step lib Dispatch s = None"
    by (cases "pc s") (simp_all add: websocket_handler_step_def)
  have 3: "is_running (pc s) \<longrightarrow> (\<exists>new. sent s' = sent s @ new \<and> pong_after_done new)"
  proof
    assume "is_running (pc s)"
    then have "seq_inv [] (pc s)"
      by (auto simp: seq_inv_def is_running_def split: pc.splits)
    from seq_inv_run[of s "sent s" "[]", OF _ this assms(2)]
    show "\<exists>new. sent s' = sent s @ new \<and> pong_after_done new"
      by (auto dest: seq_inv_pong)
  qed
  from 1 2 3 show ?thesis by blast
qed

text \<open>The example session with its process running and a ping in the inbox: one invocation in
  flight, no dispatch, and the pong of the ping after the \<open>done\<close>.\<close>

theorem dispatch_is_sequential_witness:
  "active example_running \<le> 1 \<and> active example_running = 1 \<and>
   is_running (pc example_running) \<and>
   websocket_handler_step example_lib Dispatch example_running = None \<and>
   (\<exists>new. sent example_answered = sent example_running @ new \<and> pong_after_done new)"
proof -
  have r: "is_running (pc example_running)" "pc example_running \<noteq> Idle"
    by (simp_all add: example_running_def is_running_def)
  from dispatch_is_sequential[OF example_run_to_running example_run_to_answered] r
  show ?thesis by blast
qed

end
